theory Spec2Isabelle
  imports Complex_Main "HOL-Library.Dlist" "HOL-Library.Word"
begin

unbundle bit_operations_syntax

section \<open>The live session component (src/components/LiveSession.tsx)\<close>

text \<open>
  The component is event driven: every handler runs to completion on the single
  JavaScript thread. Each handler of the source becomes a function from the component's
  state to its new state. The calls a handler makes on browser and SDK objects
  (\<open>stop\<close>, \<open>close\<close>, \<open>disconnect\<close>, \<open>start\<close>, \<open>sendRealtimeInput\<close>,
  \<open>console.error\<close>, \<open>setTimeout\<close>) are appended, in call order, to the field
  \<open>trace\<close>.
\<close>

subsection \<open>JavaScript numbers\<close>

text \<open>
  Times on the audio clock and durations are JavaScript numbers: IEEE 754 doubles. A
  finite double is taken as the real number it denotes, and an arithmetic operation
  gives the exact result rounded to the nearest double, ties to the even significand.
  \<open>binade x\<close> is the exponent of the power of two at or below the magnitude of
  \<open>x\<close>, not below -1022 (under it the doubles are subnormal); \<open>ulp x\<close> is the
  distance between neighbouring doubles there (53 bits of significand). Overflow to
  infinity (sums of 2^1024 and more) and NaN are left out.
\<close>

definition binade :: "real \<Rightarrow> int" where
  "binade x = (if x = 0 then - 1022 else max \<lfloor>log 2 \<bar>x\<bar>\<rfloor> (- 1022))"

definition ulp :: "real \<Rightarrow> real" where
  "ulp x = 2 powi (binade x - 52)"

definition roundHalfEven :: "real \<Rightarrow> int" where
  "roundHalfEven r =
     (let f = \<lfloor>r\<rfloor>
      in if r - of_int f < 1/2 then f
         else if 1/2 < r - of_int f then f + 1
         else if even f then f else f + 1)"

definition roundDouble :: "real \<Rightarrow> real" where
  "roundDouble x = of_int (roundHalfEven (x / ulp x)) * ulp x"

definition isDouble :: "real \<Rightarrow> bool" where
  "isDouble x \<longleftrightarrow> roundDouble x = x"

text \<open>The \<open>+\<close> and \<open>/\<close> of two numbers. A division by zero, which gives an
  infinity or NaN, is left out as well: the program divides by sample rates only.\<close>

definition jsAdd :: "real \<Rightarrow> real \<Rightarrow> real" where
  "jsAdd a b = roundDouble (a + b)"

definition jsDiv :: "real \<Rightarrow> real \<Rightarrow> real" where
  "jsDiv a b = roundDouble (a / b)"

subsection \<open>Browser objects\<close>

type_synonym node_id = nat

text \<open>An \<open>AudioBuffer\<close>: its \<open>duration\<close> attribute is a number, its length in
  sample frames divided by its sample rate (Web Audio). The browser makes no buffer
  with the sample rate 0.\<close>

record audio_buffer =
  frameCount :: nat
  bufferSampleRate :: nat

definition duration :: "audio_buffer \<Rightarrow> real" where
  "duration b = jsDiv (real (frameCount b)) (real (bufferSampleRate b))"

datatype audio_context = AudioContext (sampleRate: nat)

text \<open>A \<open>MediaStream\<close> is known by its tracks, which are distinct objects.\<close>

datatype media_stream = MediaStream (getTracks: "nat dlist")

text \<open>
  \<open>isMuted\<close> is a \<open>const\<close> bound anew by \<open>useState\<close> on every render of the
  component, and every function declared in the component body closes over the
  bindings of the render that declared it. A \<open>render_scope\<close> holds the binding a
  closure can see. The mount effect (\<open>useEffect\<close> with the dependency list \<open>[]\<close>)
  runs once, with the closures of the first render, where \<open>useState(false)\<close> gives
  \<open>isMuted = false\<close>.
\<close>

record render_scope =
  scope_isMuted :: bool

definition firstRender :: render_scope where
  "firstRender = \<lparr>scope_isMuted = False\<rparr>"

text \<open>The \<open>ScriptProcessorNode\<close> with the \<open>onaudioprocess\<close> closure assigned to it;
  the closure is known by the scope it was created in.\<close>

record script_processor =
  bufferSize :: nat
  onaudioprocess_scope :: render_scope

datatype effect =
    ProcessorDisconnect
  | SourceDisconnect
  | TrackStop nat
  | InputContextClose
  | AudioContextClose
  | SourceStop node_id
  | SourceStart node_id real audio_buffer
  | SendRealtimeInput "real list"
  | ConsoleError string
  | SetTimeout nat
  | OnEndSession string

subsection \<open>Component state: the \<open>useState\<close> cells and the refs\<close>

record session =
  isConnected :: bool
  error :: "string option"
  isMuted :: bool
  isAiSpeaking :: bool
  audioContextRef :: "audio_context option"
  inputContextRef :: "audio_context option"
  streamRef :: "media_stream option"
  processorRef :: "script_processor option"
  sourceRef :: "media_stream option"
  sessionRef :: bool
  nextStartTimeRef :: real
  sourcesRef :: "node_id dlist"
  transcriptRef :: string
  nextNodeId :: node_id
  trace :: "effect list"

text \<open>
  \<open>sourcesRef\<close> is a JavaScript \<open>Set\<close>: no duplicates, iterated in insertion
  order. \<open>Dlist.insert\<close> puts a new element in front, so \<open>forEach\<close> visits the
  reversed list. \<open>nextNodeId\<close> names the object the next
  \<open>ctx.createBufferSource()\<close> returns. \<open>sourceRef\<close> holds the
  \<open>MediaStreamAudioSourceNode\<close>, known by the stream it reads.
\<close>

definition forEach :: "'a dlist \<Rightarrow> 'a list" where
  "forEach d = rev (list_of_dlist d)"

definition emit :: "effect list \<Rightarrow> session \<Rightarrow> session" where
  "emit es s = s\<lparr>trace := trace s @ es\<rparr>"

definition initialState :: session where
  "initialState = \<lparr>isConnected = False, error = None, isMuted = False,
     isAiSpeaking = False, audioContextRef = None, inputContextRef = None,
     streamRef = None, processorRef = None, sourceRef = None, sessionRef = False,
     nextStartTimeRef = 0, sourcesRef = Dlist.empty, transcriptRef = [],
     nextNodeId = 0, trace = []\<rparr>"

subsection \<open>\<open>cleanup\<close> (lines 42-70)\<close>

text \<open>The routine is six statements in a row; each is a definition of its own.\<close>

definition disconnectProcessor :: "session \<Rightarrow> session" where
  "disconnectProcessor s =
    (case processorRef s of
       Some p \<Rightarrow> (emit [ProcessorDisconnect] s)\<lparr>processorRef := None\<rparr>
     | None \<Rightarrow> s)"

definition disconnectSource :: "session \<Rightarrow> session" where
  "disconnectSource s =
    (case sourceRef s of
       Some n \<Rightarrow> (emit [SourceDisconnect] s)\<lparr>sourceRef := None\<rparr>
     | None \<Rightarrow> s)"

definition stopTracks :: "session \<Rightarrow> session" where
  "stopTracks s =
    (case streamRef s of
       Some st \<Rightarrow> (emit (map TrackStop (forEach (getTracks st))) s)\<lparr>streamRef := None\<rparr>
     | None \<Rightarrow> s)"

definition closeInputContext :: "session \<Rightarrow> session" where
  "closeInputContext s =
    (case inputContextRef s of
       Some c \<Rightarrow> (emit [InputContextClose] s)\<lparr>inputContextRef := None\<rparr>
     | None \<Rightarrow> s)"

definition closeAudioContext :: "session \<Rightarrow> session" where
  "closeAudioContext s =
    (case audioContextRef s of
       Some c \<Rightarrow> (emit [AudioContextClose] s)\<lparr>audioContextRef := None\<rparr>
     | None \<Rightarrow> s)"

definition stopSources :: "session \<Rightarrow> session" where
  "stopSources s =
    (emit (map SourceStop (forEach (sourcesRef s))) s)\<lparr>sourcesRef := Dlist.empty\<rparr>"

definition cleanup :: "session \<Rightarrow> session" where
  "cleanup s =
    stopSources (closeAudioContext (closeInputContext
      (stopTracks (disconnectSource (disconnectProcessor s)))))"

subsection \<open>\<open>connectToLiveApi\<close> and its callbacks (lines 72-122)\<close>

text \<open>
  The function is \<open>async\<close>. \<open>connectToLiveApi\<close> is its part up to
  \<open>await getUserMedia\<close> (lines 74-83): the two contexts are created. Other events
  can be handled while the promise is pending. \<open>connectToLiveApi_resumed\<close> is the
  part after the \<open>await\<close>: \<open>getUserMedia\<close> has either rejected with an error
  message or resolved with a stream. On rejection the \<open>catch\<close> logs and sets
  \<open>error\<close> to \<open>err.message\<close>, or to the default text when the message is empty.
  The constructors of lines 74-80 are taken not to throw; \<open>ai.live.connect\<close>
  returns a promise, whose rejection this \<open>try\<close> does not see.
\<close>

definition connectToLiveApi :: "session \<Rightarrow> session" where
  "connectToLiveApi s =
     s\<lparr>inputContextRef := Some (AudioContext 16000),
       audioContextRef := Some (AudioContext 24000)\<rparr>"

definition connectToLiveApi_resumed :: "string + media_stream \<Rightarrow> session \<Rightarrow> session" where
  "connectToLiveApi_resumed userMedia s =
    (case userMedia of
       Inl message \<Rightarrow>
         (emit [ConsoleError ''Connection failed:''] s)
           \<lparr>error := Some (if message = [] then
              ''Failed to access microphone or connect to API.'' else message)\<rparr>
     | Inr stream \<Rightarrow> s\<lparr>streamRef := Some stream, sessionRef := True\<rparr>)"

subsection \<open>\<open>startAudioInput\<close> (lines 124-147)\<close>

text \<open>The first argument is the render whose \<open>startAudioInput\<close> this is: the
  \<open>onaudioprocess\<close> closure it creates reads that render's \<open>isMuted\<close>.\<close>

definition startAudioInput :: "render_scope \<Rightarrow> media_stream \<Rightarrow> session \<Rightarrow> session" where
  "startAudioInput scope stream s =
    (case inputContextRef s of
       None \<Rightarrow> s
     | Some c \<Rightarrow> s\<lparr>sourceRef := Some stream,
          processorRef := Some \<lparr>bufferSize = 4096, onaudioprocess_scope = scope\<rparr>\<rparr>)"

text \<open>The body of the \<open>onaudioprocess\<close> closure (lines 131-140) for one capture
  window. The frame sent is \<open>createPCM16Blob(inputData)\<close>, recorded by the window
  it encodes.\<close>

definition onaudioprocess :: "script_processor \<Rightarrow> real list \<Rightarrow> session \<Rightarrow> session" where
  "onaudioprocess p inputData s =
    (if scope_isMuted (onaudioprocess_scope p) then s
     else emit [SendRealtimeInput inputData] s)"

text \<open>The callbacks given to \<open>ai.live.connect\<close> by the mount effect's
  \<open>connectToLiveApi\<close>: they are closures of the first render.\<close>

definition onopen :: "media_stream \<Rightarrow> session \<Rightarrow> session" where
  "onopen stream s = startAudioInput firstRender stream (s\<lparr>isConnected := True\<rparr>)"

definition onclose :: "session \<Rightarrow> session" where
  "onclose s = s\<lparr>isConnected := False\<rparr>"

definition onerror :: "string \<Rightarrow> session \<Rightarrow> session" where
  "onerror err s =
    (emit [ConsoleError ''Live API Error:''] s)
      \<lparr>error := Some ''Connection lost. Please try again.'', isConnected := False\<rparr>"

subsection \<open>\<open>handleServerMessage\<close> (lines 149-216)\<close>

text \<open>
  The parts of a \<open>LiveServerMessage\<close> the handler reads: \<open>interrupted\<close>,
  \<open>modelTurn?.turnComplete\<close>, \<open>inputTranscription?.text\<close>,
  \<open>outputTranscription?.text\<close> and \<open>modelTurn?.parts?.[0]?.inlineData?.data\<close>
  (base64 text). An absent value of an optional chain is \<open>None\<close>, or \<open>False\<close> for
  the two flags.
\<close>

record server_content =
  interrupted :: bool
  turnComplete :: bool
  inputTranscription :: "string option"
  outputTranscription :: "string option"
  inlineData :: "string option"

record live_server_message =
  serverContent :: "server_content option"

text \<open>JavaScript truthiness of an optional string: \<open>undefined\<close> and \<open>""\<close> are
  falsy.\<close>

fun truthy :: "string option \<Rightarrow> bool" where
  "truthy None = False"
| "truthy (Some t) = (t \<noteq> [])"

definition appendTranscript :: "string \<Rightarrow> string option \<Rightarrow> session \<Rightarrow> session" where
  "appendTranscript speaker text s =
    (case text of
       None \<Rightarrow> s
     | Some t \<Rightarrow> if t = [] then s
         else s\<lparr>transcriptRef := transcriptRef s @ speaker @ '': '' @ t @ [CHR 0x0A]\<rparr>)"

text \<open>
  What \<open>await decodeAudioData(audioData, ctx, 24000, 1)\<close> settles with: a
  rejection, or the decoded buffer. \<open>decodeAudioData\<close> and \<open>base64ToUint8Array\<close>
  live in \<open>utils/audio\<close>; the outcome is an input of the handler here, and
  \<open>base64ToUint8Array\<close> is taken to return. The handler is \<open>async\<close> and suspends
  at the \<open>await\<close>; the promise is taken to settle before the next event is
  delivered, so the part after the \<open>await\<close> runs in the same step as the part
  before it.
\<close>

datatype decode_result = DecodeRejected | Decoded audio_buffer

text \<open>Lines 186-210, the continuation after a successful decode; \<open>currentTime\<close> is
  \<open>ctx.currentTime\<close> read at that moment. The comparison of two numbers is exact;
  \<open>+=\<close> is the addition of numbers.\<close>

definition scheduleBuffer :: "audio_buffer \<Rightarrow> real \<Rightarrow> session \<Rightarrow> session" where
  "scheduleBuffer audioBuffer currentTime s =
    (let s1 = (if nextStartTimeRef s < currentTime
                 then s\<lparr>nextStartTimeRef := currentTime\<rparr> else s);
         source = nextNodeId s1;
         s2 = emit [SourceStart source (nextStartTimeRef s1) audioBuffer]
                (s1\<lparr>nextNodeId := Suc source\<rparr>);
         s3 = s2\<lparr>nextStartTimeRef := jsAdd (nextStartTimeRef s2) (duration audioBuffer)\<rparr>
     in s3\<lparr>sourcesRef := Dlist.insert source (sourcesRef s3)\<rparr>)"

definition handleServerMessage ::
    "live_server_message \<Rightarrow> decode_result \<Rightarrow> real \<Rightarrow> session \<Rightarrow> session" where
  "handleServerMessage message decoded currentTime s =
    (case serverContent message of
       None \<Rightarrow> s
     | Some sc \<Rightarrow>
        if audioContextRef s = None then s
        else if interrupted sc then
          (emit (map SourceStop (forEach (sourcesRef s))) s)
            \<lparr>sourcesRef := Dlist.empty, nextStartTimeRef := 0, isAiSpeaking := False\<rparr>
        else
          let s1 = (if turnComplete sc then s\<lparr>isAiSpeaking := False\<rparr> else s);
              s2 = appendTranscript ''User'' (inputTranscription sc) s1;
              s3 = appendTranscript ''Tutor'' (outputTranscription sc) s2
          in if truthy (inlineData sc) then
               (case decoded of
                  Decoded audioBuffer \<Rightarrow>
                    scheduleBuffer audioBuffer currentTime (s3\<lparr>isAiSpeaking := True\<rparr>)
                | DecodeRejected \<Rightarrow>
                    emit [ConsoleError ''Error decoding audio''] (s3\<lparr>isAiSpeaking := True\<rparr>))
             else s3)"

text \<open>The \<open>onended\<close> closure of a scheduled source (lines 201-210) and the timer
  callback it sets (line 207).\<close>

definition onended :: "node_id \<Rightarrow> session \<Rightarrow> session" where
  "onended source s =
    (let s1 = s\<lparr>sourcesRef := Dlist.remove source (sourcesRef s)\<rparr>
     in if Dlist.null (sourcesRef s1) then emit [SetTimeout 200] s1 else s1)"

definition onTimeout :: "session \<Rightarrow> session" where
  "onTimeout s = (if Dlist.null (sourcesRef s) then s\<lparr>isAiSpeaking := False\<rparr> else s)"

subsection \<open>\<open>handleEndSession\<close> and \<open>toggleMute\<close> (lines 218-225)\<close>

definition handleEndSession :: "session \<Rightarrow> session" where
  "handleEndSession s = (let s1 = cleanup s in emit [OnEndSession (transcriptRef s1)] s1)"

text \<open>\<open>toggleMute\<close> is called from the button of the latest render, whose
  \<open>isMuted\<close> is the current state.\<close>

definition toggleMute :: "session \<Rightarrow> session" where
  "toggleMute s = s\<lparr>isMuted := \<not> isMuted s\<rparr>"

subsection \<open>Events\<close>

text \<open>
  What the browser, the SDK and the user can deliver to the component. \<open>Mount\<close>
  runs the mount effect; \<open>UserMedia\<close> settles the pending \<open>getUserMedia\<close>. A
  capture window is delivered to the processor held in \<open>processorRef\<close>: the
  connection opens once, so one processor is created, and \<open>processorRef\<close> holds it
  exactly while it is connected. A processor that a second \<open>onopen\<close> would leave
  connected beside the one in the ref is not represented.
\<close>

datatype event =
    Mount
  | UserMedia "string + media_stream"
  | Open media_stream
  | Close
  | Error string
  | Message live_server_message decode_result real
  | CaptureWindow "real list"
  | Ended node_id
  | Timeout
  | ToggleMute
  | EndSession
  | Unmount

fun fire :: "event \<Rightarrow> session \<Rightarrow> session" where
  "fire Mount s = connectToLiveApi s"
| "fire (UserMedia userMedia) s = connectToLiveApi_resumed userMedia s"
| "fire (Open stream) s = onopen stream s"
| "fire Close s = onclose s"
| "fire (Error err) s = onerror err s"
| "fire (Message m d t) s = handleServerMessage m d t s"
| "fire (CaptureWindow w) s =
     (case processorRef s of None \<Rightarrow> s | Some p \<Rightarrow> onaudioprocess p w s)"
| "fire (Ended source) s = onended source s"
| "fire Timeout s = onTimeout s"
| "fire ToggleMute s = toggleMute s"
| "fire EndSession s = handleEndSession s"
| "fire Unmount s = cleanup s"

fun run :: "event list \<Rightarrow> session \<Rightarrow> session" where
  "run [] s = s"
| "run (e # es) s = run es (fire e s)"

section \<open>The audio frame codec (utils/audio)\<close>

text \<open>
  \<open>LiveSession.tsx\<close> imports \<open>createPCM16Blob\<close>, \<open>decodeAudioData\<close> and
  \<open>base64ToUint8Array\<close> from \<open>utils/audio\<close>, a file that is not among the sources.
  The definitions of this section follow section 4.3 of the specification instead.
  Samples are taken as reals: the specification describes the mapping between samples
  and 16-bit values, not the rounding of the floating-point formats that hold the
  samples. The specification does not say how the scaled value becomes an integer,
  so \<open>quantise\<close> is a parameter. Base64 framing belongs to the transport and is
  left out: the codec works on the bytes.

  The signed 16-bit range is [-32768, 32767], which is not symmetric. One factor for
  both signs cannot meet the specification: a factor below 32768 sends the stored
  value -32768 below -1.0 on decoding, and the factor 32768 sends the sample 1.0 to
  32768, outside the 16-bit range. So the scaling is linear on each side of zero,
  with the factor 32768 for negative samples and 32767 for the others, which takes
  [-1.0, 1.0] onto the whole 16-bit range; decoding divides by the same factors.
\<close>









section \<open>Notions used to state the properties\<close>

subsection \<open>Owned resources and their release\<close>

text \<open>
  The resources the component owns in a state, and the call that releases each. The
  effects a handler adds to the trace are those after the old trace's length.
\<close>

datatype resource =
    CaptureProcessor | MicrophoneSource | StreamTrack nat
  | InputContext | OutputContext | PlaybackSource node_id

fun owns :: "session \<Rightarrow> resource \<Rightarrow> bool" where
  "owns s CaptureProcessor = (processorRef s \<noteq> None)"
| "owns s MicrophoneSource = (sourceRef s \<noteq> None)"
| "owns s (StreamTrack k) =
     (case streamRef s of None \<Rightarrow> False | Some st \<Rightarrow> Dlist.member (getTracks st) k)"
| "owns s InputContext = (inputContextRef s \<noteq> None)"
| "owns s OutputContext = (audioContextRef s \<noteq> None)"
| "owns s (PlaybackSource i) = Dlist.member (sourcesRef s) i"

fun release :: "resource \<Rightarrow> effect" where
  "release CaptureProcessor = ProcessorDisconnect"
| "release MicrophoneSource = SourceDisconnect"
| "release (StreamTrack k) = TrackStop k"
| "release InputContext = InputContextClose"
| "release OutputContext = AudioContextClose"
| "release (PlaybackSource i) = SourceStop i"

definition emitted :: "session \<Rightarrow> session \<Rightarrow> effect list" where
  "emitted s s' = drop (length (trace s)) (trace s')"

definition releases :: "session \<Rightarrow> effect list" where
  "releases s =
     (if processorRef s = None then [] else [ProcessorDisconnect]) @
     (if sourceRef s = None then [] else [SourceDisconnect]) @
     (case streamRef s of None \<Rightarrow> [] | Some st \<Rightarrow> map TrackStop (forEach (getTracks st))) @
     (if inputContextRef s = None then [] else [InputContextClose]) @
     (if audioContextRef s = None then [] else [AudioContextClose]) @
     map SourceStop (forEach (sourcesRef s))"

definition released :: "session \<Rightarrow> bool" where
  "released t \<longleftrightarrow> processorRef t = None \<and> sourceRef t = None \<and> streamRef t = None \<and>
     inputContextRef t = None \<and> audioContextRef t = None \<and> sourcesRef t = Dlist.empty"

text \<open>
  \<open>AudioScheduledSourceNode.stop()\<close> throws \<open>InvalidStateError\<close> on a node whose
  \<open>start()\<close> was never called. It is the one call of \<open>cleanup\<close> that can throw:
  every other call is made on a ref its guard found non-null and has no failure mode.
\<close>

fun startsNode :: "node_id \<Rightarrow> effect \<Rightarrow> bool" where
  "startsNode i (SourceStart j t b) = (i = j)"
| "startsNode i _ = False"

definition stopRaises :: "session \<Rightarrow> bool" where
  "stopRaises s =
     list_ex (\<lambda>i. \<not> list_ex (startsNode i) (trace s)) (forEach (sourcesRef s))"

subsection \<open>A session in mid-conversation\<close>

definition sampleSession :: session where
  "sampleSession = initialState\<lparr>isConnected := True, isAiSpeaking := True,
     audioContextRef := Some (AudioContext 24000), inputContextRef := Some (AudioContext 16000),
     streamRef := Some (MediaStream (Dlist.insert 0 Dlist.empty)),
     processorRef := Some \<lparr>bufferSize = 4096, onaudioprocess_scope = firstRender\<rparr>,
     sourceRef := Some (MediaStream (Dlist.insert 0 Dlist.empty)),
     sessionRef := True, nextStartTimeRef := 2,
     sourcesRef := Dlist.insert 1 (Dlist.insert 0 Dlist.empty), nextNodeId := 2,
     trace := [SourceStart 0 1 \<lparr>frameCount = 12000, bufferSampleRate = 24000\<rparr>,
               SourceStart 1 (3/2) \<lparr>frameCount = 12000, bufferSampleRate = 24000\<rparr>]\<rparr>"

subsection \<open>Server messages\<close>

text \<open>
  The line a transcription text contributes, the state after lines 164-174 of
  \<open>handleServerMessage\<close> (\<open>noted\<close>), a message content without its payload, and
  the start times and buffers handed to \<open>source.start\<close> in a trace.
\<close>

definition transcriptLine :: "string \<Rightarrow> string option \<Rightarrow> string" where
  "transcriptLine speaker text =
     (if truthy text then speaker @ '': '' @ the text @ [CHR 0x0A] else [])"

definition withoutPayload :: "server_content \<Rightarrow> server_content" where
  "withoutPayload sc = sc\<lparr>turnComplete := False, inputTranscription := None,
     outputTranscription := None, inlineData := None\<rparr>"

fun scheduled :: "effect list \<Rightarrow> (real \<times> audio_buffer) list" where
  "scheduled [] = []"
| "scheduled (SourceStart i t b # es) = (t, b) # scheduled es"
| "scheduled (e # es) = scheduled es"

definition plainContent :: server_content where
  "plainContent = \<lparr>interrupted = False, turnComplete = False, inputTranscription = None,
     outputTranscription = None, inlineData = None\<rparr>"

definition tone :: audio_buffer where
  "tone = \<lparr>frameCount = 12000, bufferSampleRate = 24000\<rparr>"

definition interruptedWithPayload :: live_server_message where
  "interruptedWithPayload = \<lparr>serverContent = Some (plainContent\<lparr>interrupted := True,
     inputTranscription := Some ''stop'', outputTranscription := Some ''Well'',
     inlineData := Some ''AAAA''\<rparr>)\<rparr>"

definition noted :: "server_content \<Rightarrow> session \<Rightarrow> session" where
  "noted sc s = appendTranscript ''Tutor'' (outputTranscription sc)
      (appendTranscript ''User'' (inputTranscription sc)
        (if turnComplete sc then s\<lparr>isAiSpeaking := False\<rparr> else s))"

subsection \<open>Sample messages and a session that has ended\<close>

text \<open>\<open>endedSession\<close>: the component was mounted, the connection opened, one
  half-second buffer arrived at clock time 5 and was scheduled, then the user ended
  the session. The socket is not closed by \<open>cleanup\<close> (lines 64-66), so messages can
  still arrive.\<close>

definition micStream :: media_stream where
  "micStream = MediaStream (Dlist.insert 0 Dlist.empty)"

definition audioMessage :: live_server_message where
  "audioMessage = \<lparr>serverContent = Some (plainContent\<lparr>inlineData := Some ''AAAA''\<rparr>)\<rparr>"

definition interruptMessage :: live_server_message where
  "interruptMessage = \<lparr>serverContent = Some (plainContent\<lparr>interrupted := True\<rparr>)\<rparr>"

definition endedSession :: session where
  "endedSession = run [Mount, UserMedia (Inr micStream), Open micStream,
     Message audioMessage (Decoded tone) 5, EndSession] initialState"

subsection \<open>Sequences of events without an interruption\<close>

text \<open>
  An event is uninterrupted unless it is a message flagged interrupted.
  \<open>gapFree lo xs\<close>: the first start is at or after \<open>lo\<close> and each later start is
  at or after the sum, as the program computes it, of the start and the duration of
  the buffer before it. \<open>doubleClock\<close>: the clock reading that comes with a message
  is a non-negative double, as \<open>ctx.currentTime\<close> is. \<open>liveSession\<close> is the
  component after mounting and the connection opening. \<open>fiveTenths\<close>: five buffers
  of 2400 frames at 24 kHz (a tenth of a second each) that all arrive at clock time 0.
\<close>

fun uninterrupted :: "event \<Rightarrow> bool" where
  "uninterrupted (Message m d t) =
     (case serverContent m of None \<Rightarrow> True | Some sc \<Rightarrow> \<not> interrupted sc)"
| "uninterrupted e = True"

fun gapFree :: "real \<Rightarrow> (real \<times> audio_buffer) list \<Rightarrow> bool" where
  "gapFree lo [] = True"
| "gapFree lo ((t, b) # xs) = (lo \<le> t \<and> gapFree (jsAdd t (duration b)) xs)"

fun doubleClock :: "event \<Rightarrow> bool" where
  "doubleClock (Message m d t) = (0 \<le> t \<and> isDouble t)"
| "doubleClock e = True"

definition tenth :: audio_buffer where
  "tenth = \<lparr>frameCount = 2400, bufferSampleRate = 24000\<rparr>"

definition fiveTenths :: "event list" where
  "fiveTenths = [Message audioMessage (Decoded tenth) 0, Message audioMessage (Decoded tenth) 0,
     Message audioMessage (Decoded tenth) 0, Message audioMessage (Decoded tenth) 0,
     Message audioMessage (Decoded tenth) 0]"

definition liveSession :: session where
  "liveSession = run [Mount, UserMedia (Inr micStream), Open micStream] initialState"

subsection \<open>Transcription events\<close>

text \<open>
  The text a message adds to the transcript when it is processed, and messages that
  carry one transcription text.
\<close>

fun isMessage :: "event \<Rightarrow> bool" where
  "isMessage (Message m d t) = True"
| "isMessage e = False"

fun transcriptLines :: "event \<Rightarrow> string" where
  "transcriptLines (Message m d t) =
     (case serverContent m of
        None \<Rightarrow> []
      | Some sc \<Rightarrow> if interrupted sc then []
          else transcriptLine ''User'' (inputTranscription sc)
             @ transcriptLine ''Tutor'' (outputTranscription sc))"
| "transcriptLines e = []"

definition userSays :: "string \<Rightarrow> live_server_message" where
  "userSays text = \<lparr>serverContent = Some (plainContent\<lparr>inputTranscription := Some text\<rparr>)\<rparr>"

definition tutorSays :: "string \<Rightarrow> live_server_message" where
  "tutorSays text = \<lparr>serverContent = Some (plainContent\<lparr>outputTranscription := Some text\<rparr>)\<rparr>"

definition tutorSaysInterrupted :: "string \<Rightarrow> live_server_message" where
  "tutorSaysInterrupted text = \<lparr>serverContent =
     Some (plainContent\<lparr>interrupted := True, outputTranscription := Some text\<rparr>)\<rparr>"

subsection \<open>Capture and the speaking flag\<close>

text \<open>
  Sessions reached from the initial state: one whose user has pressed mute, one with
  a scheduled buffer still active.
  \<open>speakingWhileActive\<close> says the speaking flag is set whenever the active set is
  not empty; a bare turn-complete message carries the turn-complete flag and no audio.
\<close>

definition someWindow :: "real list" where
  "someWindow = [0, 1/2, -1/2, 1]"

definition mutedSession :: session where
  "mutedSession = run [Mount, UserMedia (Inr micStream), Open micStream, ToggleMute] initialState"

definition speakingSession :: session where
  "speakingSession = run [Mount, UserMedia (Inr micStream), Open micStream,
     Message audioMessage (Decoded tone) 5] initialState"

definition turnCompleteMessage :: live_server_message where
  "turnCompleteMessage = \<lparr>serverContent = Some (plainContent\<lparr>turnComplete := True\<rparr>)\<rparr>"

definition speakingWhileActive :: "session \<Rightarrow> bool" where
  "speakingWhileActive s \<longleftrightarrow> Dlist.null (sourcesRef s) \<or> isAiSpeaking s"

fun bareTurnComplete :: "event \<Rightarrow> bool" where
  "bareTurnComplete (Message m d t) =
     (case serverContent m of
        None \<Rightarrow> False
      | Some sc \<Rightarrow> \<not> interrupted sc \<and> turnComplete sc \<and> \<not> truthy (inlineData sc))"
| "bareTurnComplete e = False"

section \<open>Verification\<close>

subsection \<open>Teardown\<close>

lemma disconnectProcessor_simps:
  "trace (disconnectProcessor s) =
     trace s @ (if processorRef s = None then [] else [ProcessorDisconnect])"
  "processorRef (disconnectProcessor s) = None"
  "sourceRef (disconnectProcessor s) = sourceRef s"
  "streamRef (disconnectProcessor s) = streamRef s"
  "inputContextRef (disconnectProcessor s) = inputContextRef s"
  "audioContextRef (disconnectProcessor s) = audioContextRef s"
  "sourcesRef (disconnectProcessor s) = sourcesRef s"
  by (simp_all add: disconnectProcessor_def emit_def split: option.splits)

lemma disconnectSource_simps:
  "trace (disconnectSource s) =
     trace s @ (if sourceRef s = None then [] else [SourceDisconnect])"
  "processorRef (disconnectSource s) = processorRef s"
  "sourceRef (disconnectSource s) = None"
  "streamRef (disconnectSource s) = streamRef s"
  "inputContextRef (disconnectSource s) = inputContextRef s"
  "audioContextRef (disconnectSource s) = audioContextRef s"
  "sourcesRef (disconnectSource s) = sourcesRef s"
  by (simp_all add: disconnectSource_def emit_def split: option.splits)

lemma stopTracks_simps:
  "trace (stopTracks s) =
     trace s @ (case streamRef s of None \<Rightarrow> []
                | Some st \<Rightarrow> map TrackStop (forEach (getTracks st)))"
  "processorRef (stopTracks s) = processorRef s"
  "sourceRef (stopTracks s) = sourceRef s"
  "streamRef (stopTracks s) = None"
  "inputContextRef (stopTracks s) = inputContextRef s"
  "audioContextRef (stopTracks s) = audioContextRef s"
  "sourcesRef (stopTracks s) = sourcesRef s"
  by (simp_all add: stopTracks_def emit_def split: option.splits)

lemma closeInputContext_simps:
  "trace (closeInputContext s) =
     trace s @ (if inputContextRef s = None then [] else [InputContextClose])"
  "processorRef (closeInputContext s) = processorRef s"
  "sourceRef (closeInputContext s) = sourceRef s"
  "streamRef (closeInputContext s) = streamRef s"
  "inputContextRef (closeInputContext s) = None"
  "audioContextRef (closeInputContext s) = audioContextRef s"
  "sourcesRef (closeInputContext s) = sourcesRef s"
  by (simp_all add: closeInputContext_def emit_def split: option.splits)

lemma closeAudioContext_simps:
  "trace (closeAudioContext s) =
     trace s @ (if audioContextRef s = None then [] else [AudioContextClose])"
  "processorRef (closeAudioContext s) = processorRef s"
  "sourceRef (closeAudioContext s) = sourceRef s"
  "streamRef (closeAudioContext s) = streamRef s"
  "inputContextRef (closeAudioContext s) = inputContextRef s"
  "audioContextRef (closeAudioContext s) = None"
  "sourcesRef (closeAudioContext s) = sourcesRef s"
  by (simp_all add: closeAudioContext_def emit_def split: option.splits)

lemma stopSources_simps:
  "trace (stopSources s) = trace s @ map SourceStop (forEach (sourcesRef s))"
  "processorRef (stopSources s) = processorRef s"
  "sourceRef (stopSources s) = sourceRef s"
  "streamRef (stopSources s) = streamRef s"
  "inputContextRef (stopSources s) = inputContextRef s"
  "audioContextRef (stopSources s) = audioContextRef s"
  "sourcesRef (stopSources s) = Dlist.empty"
  by (simp_all add: stopSources_def emit_def)

lemmas cleanup_blocks = disconnectProcessor_simps disconnectSource_simps stopTracks_simps
  closeInputContext_simps closeAudioContext_simps stopSources_simps

lemma cleanup_trace: "trace (cleanup s) = trace s @ releases s"
  unfolding cleanup_def releases_def by (simp only: cleanup_blocks append_assoc)

lemma cleanup_fields:
  "processorRef (cleanup s) = None" "sourceRef (cleanup s) = None"
  "streamRef (cleanup s) = None" "inputContextRef (cleanup s) = None"
  "audioContextRef (cleanup s) = None" "sourcesRef (cleanup s) = Dlist.empty"
  unfolding cleanup_def by (simp_all only: cleanup_blocks)

lemma releases_cleanup: "releases (cleanup s) = []"
  by (simp add: releases_def cleanup_fields forEach_def)

lemma count_list_distinct:
  "distinct ys \<Longrightarrow> count_list ys x = (if x \<in> set ys then 1 else 0)"
  by (induction ys) auto

lemma count_list_map_inj:
  "inj f \<Longrightarrow> count_list (map f xs) (f x) = count_list xs x"
  by (induction xs) (auto dest: injD)

lemma count_forEach:
  assumes "inj f"
  shows "count_list (map f (forEach d)) (f x) = (if Dlist.member d x then 1 else 0)"
proof -
  have "count_list (map f (forEach d)) (f x) = count_list (list_of_dlist d) x"
    unfolding forEach_def using assms by (simp only: count_list_map_inj count_list_rev)
  also have "\<dots> = (if x \<in> set (list_of_dlist d) then 1 else 0)"
    by (rule count_list_distinct) (rule distinct_list_of_dlist)
  also have "\<dots> = (if Dlist.member d x then 1 else 0)"
    by (simp only: Dlist.member_def List.member_iff)
  finally show ?thesis .
qed

lemma count_map_other: "(\<And>x. f x \<noteq> e) \<Longrightarrow> count_list (map f xs) e = 0"
  by (induction xs) auto

lemma count_releases: "count_list (releases s) (release r) = (if owns s r then 1 else 0)"
proof (cases r)
  case (StreamTrack k)
  have "inj TrackStop" by (simp add: inj_def)
  then show ?thesis
    by (cases "streamRef s") (auto simp: StreamTrack releases_def count_forEach count_map_other)
next
  case (PlaybackSource i)
  have "inj SourceStop" by (simp add: inj_def)
  then show ?thesis
    by (cases "streamRef s") (auto simp: PlaybackSource releases_def count_forEach count_map_other)
qed (cases "streamRef s"; auto simp: releases_def count_map_other)+

lemma cleanup_noop:
  assumes "processorRef t = None" "sourceRef t = None" "streamRef t = None"
    "inputContextRef t = None" "audioContextRef t = None" "sourcesRef t = Dlist.empty"
  shows "cleanup t = t"
proof -
  have 1: "disconnectProcessor t = t" using assms by (simp add: disconnectProcessor_def)
  have 2: "disconnectSource t = t" using assms by (simp add: disconnectSource_def)
  have 3: "stopTracks t = t" using assms by (simp add: stopTracks_def)
  have 4: "closeInputContext t = t" using assms by (simp add: closeInputContext_def)
  have 5: "closeAudioContext t = t" using assms by (simp add: closeAudioContext_def)
  have 6: "stopSources t = t" using assms by (simp add: stopSources_def emit_def forEach_def)
  show ?thesis unfolding cleanup_def by (simp only: 1 2 3 4 5 6)
qed

lemma cleanup_cleanup: "cleanup (cleanup s) = cleanup s"
  by (rule cleanup_noop) (rule cleanup_fields)+

lemma emitted_cleanup: "emitted s (cleanup s) = releases s"
  by (simp add: emitted_def cleanup_trace)

lemma not_owns_cleanup: "\<not> owns (cleanup s) r"
  by (cases r) (simp_all add: cleanup_fields Dlist.member_def)

lemma appendTranscript_simps:
  "trace (appendTranscript sp tx s) = trace s"
  "sourcesRef (appendTranscript sp tx s) = sourcesRef s"
  "nextStartTimeRef (appendTranscript sp tx s) = nextStartTimeRef s"
  "nextNodeId (appendTranscript sp tx s) = nextNodeId s"
  "isAiSpeaking (appendTranscript sp tx s) = isAiSpeaking s"
  "isConnected (appendTranscript sp tx s) = isConnected s"
  "error (appendTranscript sp tx s) = error s"
  "audioContextRef (appendTranscript sp tx s) = audioContextRef s"
  by (simp_all add: appendTranscript_def split: option.splits)

lemma scheduleBuffer_simps:
  "trace (scheduleBuffer b t s) =
     trace s @ [SourceStart (nextNodeId s) (max (nextStartTimeRef s) t) b]"
  "sourcesRef (scheduleBuffer b t s) = Dlist.insert (nextNodeId s) (sourcesRef s)"
  "nextStartTimeRef (scheduleBuffer b t s) = jsAdd (max (nextStartTimeRef s) t) (duration b)"
  "nextNodeId (scheduleBuffer b t s) = Suc (nextNodeId s)"
  "isAiSpeaking (scheduleBuffer b t s) = isAiSpeaking s"
  "transcriptRef (scheduleBuffer b t s) = transcriptRef s"
  "audioContextRef (scheduleBuffer b t s) = audioContextRef s"
  by (simp_all add: scheduleBuffer_def emit_def Let_def max_def)

lemma stopRaises_iff:
  "stopRaises s \<longleftrightarrow>
     (\<exists>i \<in> set (list_of_dlist (sourcesRef s)). \<forall>e \<in> set (trace s). \<not> startsNode i e)"
  by (simp add: stopRaises_def list_ex_iff forEach_def)

lemma stopRaises_mono:
  assumes "\<not> stopRaises s"
    and "set (list_of_dlist (sourcesRef s')) \<subseteq> set (list_of_dlist (sourcesRef s))"
    and "set (trace s) \<subseteq> set (trace s')"
  shows "\<not> stopRaises s'"
  using assms unfolding stopRaises_iff by blast

lemma stopRaises_scheduleBuffer:
  assumes "\<not> stopRaises s" shows "\<not> stopRaises (scheduleBuffer b t s)"
  using assms unfolding stopRaises_iff by (auto simp: scheduleBuffer_simps)

lemma stopRaises_handleServerMessage:
  assumes "\<not> stopRaises s" shows "\<not> stopRaises (handleServerMessage m d t s)"
proof (cases "serverContent m")
  case None
  then show ?thesis using assms by (simp add: handleServerMessage_def)
next
  case (Some sc)
  let ?s3 = "appendTranscript ''Tutor'' (outputTranscription sc)
      (appendTranscript ''User'' (inputTranscription sc)
        (if turnComplete sc then s\<lparr>isAiSpeaking := False\<rparr> else s))"
  have s3: "\<not> stopRaises ?s3"
    by (rule stopRaises_mono[OF assms]) (simp_all add: appendTranscript_simps)
  have s3': "\<not> stopRaises (?s3\<lparr>isAiSpeaking := True\<rparr>)"
    by (rule stopRaises_mono[OF s3]) simp_all
  show ?thesis
  proof (cases "audioContextRef s = None \<or> interrupted sc")
    case True
    then show ?thesis using assms Some
      by (auto simp: handleServerMessage_def stopRaises_iff emit_def)
  next
    case False
    then obtain ctx where nc: "audioContextRef s = Some ctx" and ni: "\<not> interrupted sc" by auto
    have eq: "handleServerMessage m d t s =
      (if truthy (inlineData sc) then
         (case d of Decoded ab \<Rightarrow> scheduleBuffer ab t (?s3\<lparr>isAiSpeaking := True\<rparr>)
          | DecodeRejected \<Rightarrow> emit [ConsoleError ''Error decoding audio''] (?s3\<lparr>isAiSpeaking := True\<rparr>))
       else ?s3)"
      using Some nc ni by (simp add: handleServerMessage_def Let_def)
    show ?thesis
    proof (cases "truthy (inlineData sc)")
      case False
      then show ?thesis using s3 eq by simp
    next
      case True
      show ?thesis
      proof (cases d)
        case DecodeRejected
        have "\<not> stopRaises (emit [ConsoleError ''Error decoding audio''] (?s3\<lparr>isAiSpeaking := True\<rparr>))"
          by (rule stopRaises_mono[OF s3']) (auto simp: emit_def)
        then show ?thesis using eq True DecodeRejected by simp
      next
        case (Decoded ab)
        then show ?thesis using eq True stopRaises_scheduleBuffer[OF s3'] by simp
      qed
    qed
  qed
qed

lemma stopRaises_cleanup: "\<not> stopRaises (cleanup s)"
  by (simp add: stopRaises_def cleanup_fields forEach_def)

lemma stopRaises_fire:
  assumes "\<not> stopRaises s" shows "\<not> stopRaises (fire e s)"
proof (cases e)
  case (Message m d t)
  then show ?thesis using stopRaises_handleServerMessage[OF assms] by simp
next
  case (Ended i)
  have "\<not> stopRaises (s\<lparr>sourcesRef := Dlist.remove i (sourcesRef s)\<rparr>)"
    by (rule stopRaises_mono[OF assms]) (auto dest: notin_set_remove1)
  then show ?thesis using Ended
    by (auto simp: onended_def Let_def emit_def stopRaises_iff)
next
  case EndSession
  have "\<not> stopRaises (emit [OnEndSession (transcriptRef (cleanup s))] (cleanup s))"
    by (rule stopRaises_mono[OF stopRaises_cleanup[of s]]) (auto simp: emit_def)
  then show ?thesis using EndSession by (simp add: handleEndSession_def Let_def)
next
  case Unmount
  then show ?thesis by (simp add: stopRaises_cleanup)
next
  case (CaptureWindow w)
  then show ?thesis using assms
    by (auto simp: onaudioprocess_def emit_def stopRaises_iff split: option.splits)
qed (use assms in \<open>auto simp: stopRaises_iff connectToLiveApi_def connectToLiveApi_resumed_def Let_def onopen_def
       startAudioInput_def onclose_def onerror_def emit_def onTimeout_def toggleMute_def
       split: sum.splits option.splits\<close>)

lemma stopRaises_run: "\<not> stopRaises s \<Longrightarrow> \<not> stopRaises (run es s)"
  by (induction es arbitrary: s) (simp_all add: stopRaises_fire)

lemma stopRaises_initial: "\<not> stopRaises initialState"
  by (simp add: stopRaises_def initialState_def forEach_def)

lemma released_cleanup: "released (cleanup s)"
  by (simp add: released_def cleanup_fields)

lemma cleanup_released: "released t \<Longrightarrow> cleanup t = t"
  unfolding released_def by (intro cleanup_noop) simp_all

lemma release_not_callback: "OnEndSession x \<noteq> release r"
  by (cases r) simp_all

lemma exits_after_release:
  assumes "released t" "set es \<subseteq> {EndSession, Unmount}"
  shows "released (run es t) \<and>
    (\<exists>ys. trace (run es t) = trace t @ ys \<and> (\<forall>r. count_list ys (release r) = 0))"
  using assms
proof (induction es arbitrary: t)
  case Nil
  then show ?case by simp
next
  case (Cons e es)
  from Cons.prems have e: "e = EndSession \<or> e = Unmount" and es: "set es \<subseteq> {EndSession, Unmount}"
    by auto
  have c: "cleanup t = t" using Cons.prems(1) by (rule cleanup_released)
  from e have "released (fire e t) \<and>
     (\<exists>x. trace (fire e t) = trace t @ x \<and> (\<forall>r. count_list x (release r) = 0))"
  proof
    assume "e = EndSession"
    then have f: "fire e t = emit [OnEndSession (transcriptRef t)] t"
      by (simp add: handleEndSession_def c)
    show ?thesis unfolding f using Cons.prems(1)
      by (auto simp: emit_def released_def release_not_callback
          intro!: exI[of _ "[OnEndSession (transcriptRef t)]"])
  next
    assume "e = Unmount"
    then show ?thesis using c Cons.prems(1) by simp
  qed
  then obtain x where r1: "released (fire e t)" and t1: "trace (fire e t) = trace t @ x"
    and c1: "\<forall>r. count_list x (release r) = 0" by blast
  from Cons.IH[OF r1 es] obtain ys where r2: "released (run es (fire e t))"
    and t2: "trace (run es (fire e t)) = trace (fire e t) @ ys"
    and c2: "\<forall>r. count_list ys (release r) = 0" by blast
  show ?case using r2 t1 t2 c1 c2 by (auto intro!: exI[of _ "x @ ys"])
qed

lemma exits_release_once:
  assumes "es \<noteq> []" "set es \<subseteq> {EndSession, Unmount}"
  shows "released (run es s) \<and>
     count_list (emitted s (run es s)) (release r) = (if owns s r then 1 else 0)"
proof -
  from assms obtain e es' where es: "es = e # es'" and e: "e = EndSession \<or> e = Unmount"
    and es': "set es' \<subseteq> {EndSession, Unmount}" by (cases es) auto
  from e have "released (fire e s) \<and>
     (\<exists>x. trace (fire e s) = trace s @ releases s @ x \<and> (\<forall>r. count_list x (release r) = 0))"
  proof
    assume "e = EndSession"
    then have f: "fire e s = emit [OnEndSession (transcriptRef (cleanup s))] (cleanup s)"
      by (simp add: handleEndSession_def Let_def)
    show ?thesis unfolding f using released_cleanup[of s]
      by (auto simp: emit_def released_def cleanup_trace release_not_callback)
  next
    assume "e = Unmount"
    then show ?thesis using released_cleanup[of s] by (simp add: cleanup_trace)
  qed
  then obtain x where r1: "released (fire e s)" and t1: "trace (fire e s) = trace s @ releases s @ x"
    and c1: "\<forall>r. count_list x (release r) = 0" by blast
  from exits_after_release[OF r1 es'] obtain ys where r2: "released (run es' (fire e s))"
    and t2: "trace (run es' (fire e s)) = trace (fire e s) @ ys"
    and c2: "\<forall>r. count_list ys (release r) = 0" by blast
  have "emitted s (run es s) = releases s @ x @ ys"
    by (simp add: emitted_def es t1 t2)
  then show ?thesis using r2 c1 c2 by (simp add: es count_releases)
qed

text \<open>
  C4. Calling \<open>cleanup\<close> twice in a row changes nothing the second time, and over
  the two calls every resource the session owned (capture processor, microphone
  source, each stream track, both audio contexts, each active playback source) is
  released exactly once and nothing else is released; afterwards nothing is owned.
  The same holds for any non-empty succession of the exit paths that call it
  (\<open>handleEndSession\<close>, unmount). No \<open>stop()\<close> it makes can throw: after a
  cleanup the active set is empty, and in every state the component can reach each
  member of the active set has been started.
\<close>

theorem cleanup_twice_releases_once:
  "cleanup (cleanup s) = cleanup s
   \<and> count_list (emitted s (cleanup (cleanup s))) (release r) = (if owns s r then 1 else 0)
   \<and> \<not> owns (cleanup s) r
   \<and> \<not> stopRaises (cleanup s)
   \<and> \<not> stopRaises (run evs initialState)
   \<and> (exits \<noteq> [] \<and> set exits \<subseteq> {EndSession, Unmount} \<longrightarrow>
        released (run exits s)
        \<and> count_list (emitted s (run exits s)) (release r) = (if owns s r then 1 else 0))"
  using exits_release_once[of exits s r]
  by (simp add: cleanup_cleanup emitted_cleanup count_releases not_owns_cleanup
      stopRaises_cleanup stopRaises_run stopRaises_initial)

lemma sample_exits: "emitted sampleSession (run [EndSession, Unmount] sampleSession) =
  [ProcessorDisconnect, SourceDisconnect, TrackStop 0, InputContextClose, AudioContextClose,
   SourceStop 0, SourceStop 1, OnEndSession []]"
  by (simp add: sampleSession_def initialState_def handleEndSession_def cleanup_def
      disconnectProcessor_def disconnectSource_def stopTracks_def closeInputContext_def
      closeAudioContext_def stopSources_def emit_def emitted_def forEach_def Let_def)

theorem cleanup_twice_releases_once_witness:
  "[EndSession, Unmount] \<noteq> [] \<and> set [EndSession, Unmount] \<subseteq> {EndSession, Unmount}
   \<and> owns sampleSession (PlaybackSource 1)
   \<and> released (run [EndSession, Unmount] sampleSession)
   \<and> count_list (emitted sampleSession (run [EndSession, Unmount] sampleSession))
        (release (PlaybackSource 1)) = 1
   \<and> emitted sampleSession (run [EndSession, Unmount] sampleSession) =
       [ProcessorDisconnect, SourceDisconnect, TrackStop 0, InputContextClose,
        AudioContextClose, SourceStop 0, SourceStop 1, OnEndSession []]"
proof -
  have o: "owns sampleSession (PlaybackSource 1)"
    by (simp add: sampleSession_def Dlist.member_def)
  from cleanup_twice_releases_once[of sampleSession "PlaybackSource 1" "[]" "[EndSession, Unmount]"]
  show ?thesis using o sample_exits by simp
qed

subsection \<open>Rounding to doubles\<close>

lemma powr_powi: "(2::real) powr (of_int k) = 2 powi k"
  by (simp add: powr_real_of_int power_int_def power_one_over[symmetric] inverse_eq_divide)

lemma floor_log2_eq:
  assumes "0 < x" "2 powi k \<le> x" "x < 2 powi (k + 1)"
  shows "\<lfloor>log 2 x\<rfloor> = k"
proof -
  have "2 powr (of_int k) \<le> x \<and> x < 2 powr (of_int k + 1)"
    using assms powr_powi[of k] powr_powi[of "k + 1"] by simp
  then show ?thesis using floor_log_eq_powr_iff[of x 2 k] assms(1) by simp
qed

lemma floor_log2_bounds:
  assumes "0 < x"
  shows "2 powi \<lfloor>log 2 x\<rfloor> \<le> x" "x < 2 powi (\<lfloor>log 2 x\<rfloor> + 1)"
proof -
  have "2 powr (of_int \<lfloor>log 2 x\<rfloor>) \<le> x \<and> x < 2 powr (of_int \<lfloor>log 2 x\<rfloor> + 1)"
    using floor_log_eq_powr_iff[of x 2 "\<lfloor>log 2 x\<rfloor>"] assms by simp
  then show "2 powi \<lfloor>log 2 x\<rfloor> \<le> x" "x < 2 powi (\<lfloor>log 2 x\<rfloor> + 1)"
    using powr_powi[of "\<lfloor>log 2 x\<rfloor>"] powr_powi[of "\<lfloor>log 2 x\<rfloor> + 1"] by simp_all
qed

lemma binade_eq:
  assumes "2 powi k \<le> \<bar>x\<bar>" "\<bar>x\<bar> < 2 powi (k + 1)" "- 1022 \<le> k"
  shows "binade x = k"
proof -
  have p: "0 < \<bar>x\<bar>" using assms(1) by (smt (verit) zero_less_power_int)
  then have "x \<noteq> 0" by simp
  moreover have "\<lfloor>log 2 \<bar>x\<bar>\<rfloor> = k" by (rule floor_log2_eq[OF p assms(1,2)])
  ultimately show ?thesis using assms(3) by (simp add: binade_def)
qed

lemma roundHalfEven_of_int: "roundHalfEven (of_int n) = n"
  by (simp add: roundHalfEven_def)

lemma roundHalfEven_mono: "r \<le> r' \<Longrightarrow> roundHalfEven r \<le> roundHalfEven r'"
proof -
  assume le: "r \<le> r'"
  have f: "\<lfloor>r\<rfloor> \<le> \<lfloor>r'\<rfloor>" using le by (rule floor_mono)
  show ?thesis
  proof (cases "\<lfloor>r\<rfloor> = \<lfloor>r'\<rfloor>")
    case True
    then show ?thesis using le by (auto simp: roundHalfEven_def Let_def)
  next
    case False
    then have "\<lfloor>r\<rfloor> + 1 \<le> \<lfloor>r'\<rfloor>" using f by linarith
    moreover have "roundHalfEven r \<le> \<lfloor>r\<rfloor> + 1" by (auto simp: roundHalfEven_def Let_def)
    moreover have "\<lfloor>r'\<rfloor> \<le> roundHalfEven r'" by (auto simp: roundHalfEven_def Let_def)
    ultimately show ?thesis by linarith
  qed
qed

lemma ulp_pos: "0 < ulp x"
  by (simp add: ulp_def)

lemma binade_ge: "- 1022 \<le> binade x"
  by (simp add: binade_def)

lemma binade_upper:
  assumes "0 < x" shows "x < 2 powi (binade x + 1)"
proof -
  have "x < 2 powi (\<lfloor>log 2 x\<rfloor> + 1)" by (rule floor_log2_bounds[OF assms])
  also have "\<dots> \<le> 2 powi (binade x + 1)"
    using assms by (intro power_int_increasing) (simp_all add: binade_def)
  finally show ?thesis .
qed

lemma binade_lower:
  assumes "0 < x" "binade x \<noteq> - 1022" shows "2 powi (binade x) \<le> x"
proof -
  have "binade x = \<lfloor>log 2 x\<rfloor>" using assms by (simp add: binade_def max_def split: if_splits)
  then show ?thesis using floor_log2_bounds(1)[OF assms(1)] by simp
qed

lemma binade_mono:
  assumes "0 < x" "x \<le> y" shows "binade x \<le> binade y"
proof -
  have "log 2 x \<le> log 2 y" using assms by simp
  then have "\<lfloor>log 2 x\<rfloor> \<le> \<lfloor>log 2 y\<rfloor>" by (rule floor_mono)
  then show ?thesis using assms by (simp add: binade_def)
qed

lemma binade_small:
  assumes "0 < y" "y < 2 powi (- 1021)" shows "binade y = - 1022"
proof -
  have "2 powi \<lfloor>log 2 y\<rfloor> \<le> y" by (rule floor_log2_bounds(1)[OF assms(1)])
  then have "(2::real) powi \<lfloor>log 2 y\<rfloor> < 2 powi (- 1021)" using assms(2) by linarith
  then have "\<lfloor>log 2 y\<rfloor> < - 1021"
  proof -
    assume l: "(2::real) powi \<lfloor>log 2 y\<rfloor> < 2 powi (- 1021)"
    show ?thesis
    proof (rule ccontr)
      assume "\<not> \<lfloor>log 2 y\<rfloor> < - 1021"
      then have "(2::real) powi (- 1021) \<le> 2 powi \<lfloor>log 2 y\<rfloor>"
        by (intro power_int_increasing) simp_all
      then show False using l by linarith
    qed
  qed
  then show ?thesis using assms(1) by (simp add: binade_def)
qed

lemma powi_52: "(2::real) powi e / 2 powi (e - 52) = 2 ^ 52"
proof -
  have "(2::real) powi e / 2 powi (e - 52) = 2 powi (e - (e - 52))"
    by (rule power_int_diff[symmetric]) simp
  then show ?thesis by simp
qed

lemma powi_53: "(2::real) powi (e + 1) / 2 powi (e - 52) = 2 ^ 53"
proof -
  have "(2::real) powi (e + 1) / 2 powi (e - 52) = 2 powi (e + 1 - (e - 52))"
    by (rule power_int_diff[symmetric]) simp
  then show ?thesis by simp
qed

lemma scaled_upper:
  assumes "0 < x" shows "x / ulp x < 2 ^ 53"
proof -
  have "x / ulp x < 2 powi (binade x + 1) / ulp x"
    using binade_upper[OF assms] ulp_pos[of x] by (simp add: divide_strict_right_mono)
  then show ?thesis by (simp add: ulp_def powi_53)
qed

lemma scaled_lower:
  assumes "0 < x" "binade x \<noteq> - 1022" shows "2 ^ 52 \<le> x / ulp x"
proof -
  have "2 powi (binade x) / ulp x \<le> x / ulp x"
    using binade_lower[OF assms] ulp_pos[of x] by (simp add: divide_right_mono)
  then show ?thesis by (simp add: ulp_def powi_52)
qed

lemma roundDouble_0: "roundDouble 0 = 0"
  by (simp add: roundDouble_def roundHalfEven_def)

lemma roundDouble_nonneg:
  assumes "0 \<le> x" shows "0 \<le> roundDouble x"
proof -
  have "0 \<le> x / ulp x" using assms ulp_pos[of x] by simp
  then have "roundHalfEven 0 \<le> roundHalfEven (x / ulp x)" by (rule roundHalfEven_mono)
  then have "0 \<le> roundHalfEven (x / ulp x)" using roundHalfEven_of_int[of 0] by simp
  then show ?thesis using ulp_pos[of x] by (simp add: roundDouble_def)
qed

lemma roundDouble_ge_double:
  assumes "0 \<le> a" "isDouble a" "0 \<le> d"
  shows "a \<le> roundDouble (a + d)"
proof (cases "a = 0")
  case True
  then show ?thesis using roundDouble_nonneg[of "a + d"] assms(3) by simp
next
  case False
  then have a: "0 < a" using assms(1) by simp
  then have x: "0 < a + d" using assms(3) by simp
  have b: "binade a \<le> binade (a + d)" using binade_mono[OF a] assms(3) by simp
  show ?thesis
  proof (cases "binade a = binade (a + d)")
    case True
    then have u: "ulp (a + d) = ulp a" by (simp add: ulp_def)
    have an: "a = of_int (roundHalfEven (a / ulp a)) * ulp a"
      using assms(2) by (simp add: isDouble_def roundDouble_def)
    then have "a / ulp a = of_int (roundHalfEven (a / ulp a))"
      using ulp_pos[of a] by (metis nonzero_mult_div_cancel_right less_irrefl)
    moreover have "a / ulp a \<le> (a + d) / ulp a"
      using assms(3) ulp_pos[of a] by (simp add: divide_right_mono)
    ultimately have "of_int (roundHalfEven (a / ulp a)) \<le> (a + d) / ulp a" by simp
    then have "roundHalfEven (of_int (roundHalfEven (a / ulp a))) \<le> roundHalfEven ((a + d) / ulp a)"
      by (rule roundHalfEven_mono)
    then have "roundHalfEven (a / ulp a) \<le> roundHalfEven ((a + d) / ulp a)"
      by (simp only: roundHalfEven_of_int)
    then have "of_int (roundHalfEven (a / ulp a)) * ulp a
        \<le> of_int (roundHalfEven ((a + d) / ulp a)) * ulp a"
      using ulp_pos[of a] by (simp add: mult_right_mono)
    then show ?thesis using an by (simp add: roundDouble_def u)
  next
    case False
    then have lt: "binade a + 1 \<le> binade (a + d)" using b by simp
    then have n: "binade (a + d) \<noteq> - 1022" using binade_ge[of a] by linarith
    have "roundHalfEven (of_int (2 ^ 52)) \<le> roundHalfEven ((a + d) / ulp (a + d))"
      using scaled_lower[OF x n] by (intro roundHalfEven_mono) simp
    then have "2 ^ 52 \<le> roundHalfEven ((a + d) / ulp (a + d))"
      by (simp only: roundHalfEven_of_int)
    then have "(2 ^ 52 :: real) \<le> of_int (roundHalfEven ((a + d) / ulp (a + d)))"
      by (metis of_int_le_iff of_int_numeral of_int_power)
    then have "2 ^ 52 * ulp (a + d) \<le> roundDouble (a + d)"
      using ulp_pos[of "a + d"] by (simp add: roundDouble_def mult_right_mono)
    moreover have "(2 ^ 52 :: real) * ulp (a + d) = 2 powi (binade (a + d))"
      using powi_52[of "binade (a + d)"] by (simp add: ulp_def field_simps)
    moreover have "(2::real) powi (binade a + 1) \<le> 2 powi (binade (a + d))"
      using lt by (intro power_int_increasing) simp_all
    ultimately show ?thesis using binade_upper[OF a] by linarith
  qed
qed

lemma roundDouble_on_grid:
  assumes "binade y = e" "y = of_int n * 2 powi (e - 52)"
  shows "roundDouble y = y"
proof -
  have u: "ulp y = 2 powi (e - 52)" using assms(1) by (simp add: ulp_def)
  have "y / ulp y = y / 2 powi (e - 52)" by (simp only: u)
  also have "\<dots> = of_int n" by (simp add: assms(2))
  finally have "roundHalfEven (y / ulp y) = n" by (simp only: roundHalfEven_of_int)
  then have "roundDouble y = of_int n * 2 powi (e - 52)" by (simp only: roundDouble_def u)
  then show ?thesis by (simp only: assms(2))
qed

lemma isDouble_roundDouble:
  assumes "0 \<le> x" shows "isDouble (roundDouble x)"
proof (cases "x = 0")
  case True
  then show ?thesis by (simp add: isDouble_def roundDouble_0)
next
  case False
  then have x: "0 < x" using assms by simp
  define e where "e = binade x"
  define n where "n = roundHalfEven (x / ulp x)"
  define y where "y = roundDouble x"
  have u: "ulp x = 2 powi (e - 52)" by (simp add: ulp_def e_def)
  have y: "y = of_int n * 2 powi (e - 52)" by (simp add: y_def roundDouble_def n_def u)
  have "roundHalfEven (x / ulp x) \<le> roundHalfEven (of_int (2 ^ 53))"
    using scaled_upper[OF x] by (intro roundHalfEven_mono) simp
  then have n_le: "n \<le> 2 ^ 53" by (simp only: n_def roundHalfEven_of_int)
  have "roundHalfEven (of_int 0) \<le> roundHalfEven (x / ulp x)"
    using x ulp_pos[of x] by (intro roundHalfEven_mono) simp
  then have n_ge: "0 \<le> n" by (simp only: n_def roundHalfEven_of_int)
  have e_ge: "- 1022 \<le> e" by (simp add: e_def binade_ge)
  have p53: "(2 ^ 53 :: real) * 2 powi (e - 52) = 2 powi (e + 1)"
    using powi_53[of e] by (simp add: field_simps)
  have p52: "(2 ^ 52 :: real) * 2 powi (e - 52) = 2 powi e"
    using powi_52[of e] by (simp add: field_simps)
  consider "n = 0" | "n = 2 ^ 53" | "0 < n" "n < 2 ^ 53" using n_le n_ge by linarith
  then have "roundDouble y = y"
  proof cases
    case 1
    then show ?thesis using y by (simp add: roundDouble_0)
  next
    case 2
    then have y2: "y = 2 powi (e + 1)" using y p53 by simp
    have b: "binade y = e + 1"
      unfolding y2 using e_ge by (intro binade_eq) (simp_all add: power_int_strict_increasing)
    have "y = of_int (2 ^ 52) * 2 powi (e + 1 - 52)"
      unfolding y2 using powi_52[of "e + 1"] by (simp add: field_simps)
    then show ?thesis by (rule roundDouble_on_grid[OF b])
  next
    case 3
    have ypos: "0 < y" using 3(1) y by simp
    have "real_of_int n < 2 ^ 53" using 3(2) by (metis of_int_less_iff of_int_numeral of_int_power)
    then have "y < 2 ^ 53 * 2 powi (e - 52)" unfolding y by (simp add: mult_strict_right_mono)
    then have yup: "y < 2 powi (e + 1)" using p53 by simp
    have b: "binade y = e"
    proof (cases "e = - 1022")
      case True
      then show ?thesis using binade_small[OF ypos] yup by simp
    next
      case False
      then have "binade x \<noteq> - 1022" by (simp add: e_def)
      then have "roundHalfEven (of_int (2 ^ 52)) \<le> roundHalfEven (x / ulp x)"
        using scaled_lower[OF x] by (intro roundHalfEven_mono) simp
      then have "2 ^ 52 \<le> n" by (simp only: n_def roundHalfEven_of_int)
      then have "(2 ^ 52 :: real) \<le> of_int n" by (metis of_int_le_iff of_int_numeral of_int_power)
      then have "2 ^ 52 * 2 powi (e - 52) \<le> y" unfolding y by (simp add: mult_right_mono)
      then have "2 powi e \<le> y" using p52 by simp
      then show ?thesis using yup ypos e_ge by (intro binade_eq) simp_all
    qed
    show ?thesis by (rule roundDouble_on_grid[OF b y])
  qed
  then show ?thesis by (simp add: isDouble_def y_def)
qed

lemma roundDouble_in_binade:
  assumes "2 powi k \<le> \<bar>x\<bar>" "\<bar>x\<bar> < 2 powi (k + 1)" "- 1022 \<le> k"
  shows "roundDouble x = of_int (roundHalfEven (x / 2 powi (k - 52))) * 2 powi (k - 52)"
  using binade_eq[OF assms] by (simp add: roundDouble_def ulp_def)

lemma isDouble_0: "isDouble 0"
  by (simp add: isDouble_def roundDouble_0)

lemma jsAdd_ge:
  "0 \<le> a \<Longrightarrow> isDouble a \<Longrightarrow> 0 \<le> d \<Longrightarrow> a \<le> jsAdd a d"
  unfolding jsAdd_def by (rule roundDouble_ge_double)

lemma jsAdd_nonneg: "0 \<le> a \<Longrightarrow> 0 \<le> d \<Longrightarrow> 0 \<le> jsAdd a d"
  unfolding jsAdd_def by (rule roundDouble_nonneg) simp

lemma isDouble_jsAdd: "0 \<le> a \<Longrightarrow> 0 \<le> d \<Longrightarrow> isDouble (jsAdd a d)"
  unfolding jsAdd_def by (rule isDouble_roundDouble) simp

lemma duration_nonneg: "0 \<le> duration b"
  unfolding duration_def jsDiv_def by (rule roundDouble_nonneg) simp

lemma duration_tone: "duration tone = 1/2"
  unfolding duration_def jsDiv_def tone_def
  by (subst roundDouble_in_binade[where k = "- 1"]) (simp_all add: roundHalfEven_def)

lemma jsAdd_5_half: "jsAdd 5 (1/2) = 11/2"
  unfolding jsAdd_def
  by (subst roundDouble_in_binade[where k = 2]) (simp_all add: roundHalfEven_def)

lemma jsAdd_2_half: "jsAdd 2 (1/2) = 5/2"
  unfolding jsAdd_def
  by (subst roundDouble_in_binade[where k = 1]) (simp_all add: roundHalfEven_def)

lemma isDouble_5: "isDouble 5"
  unfolding isDouble_def
  by (subst roundDouble_in_binade[where k = 2]) (simp_all add: roundHalfEven_def)

subsection \<open>Message handling\<close>

lemma appendTranscript_transcriptRef:
  "transcriptRef (appendTranscript sp tx s) = transcriptRef s @ transcriptLine sp tx"
  by (cases tx) (simp_all add: appendTranscript_def transcriptLine_def)

lemma appendTranscript_refs:
  "processorRef (appendTranscript sp tx s) = processorRef s"
  "sourceRef (appendTranscript sp tx s) = sourceRef s"
  "streamRef (appendTranscript sp tx s) = streamRef s"
  "inputContextRef (appendTranscript sp tx s) = inputContextRef s"
  "sessionRef (appendTranscript sp tx s) = sessionRef s"
  "isMuted (appendTranscript sp tx s) = isMuted s"
  by (simp_all add: appendTranscript_def split: option.splits)

lemma handleServerMessage_no_content:
  "serverContent m = None \<Longrightarrow> handleServerMessage m d t s = s"
  by (simp add: handleServerMessage_def)

lemma handleServerMessage_no_context:
  "audioContextRef s = None \<Longrightarrow> handleServerMessage m d t s = s"
  by (simp add: handleServerMessage_def split: option.splits)

lemma handleServerMessage_interrupted:
  "serverContent m = Some sc \<Longrightarrow> audioContextRef s = Some ctx \<Longrightarrow> interrupted sc \<Longrightarrow>
   handleServerMessage m d t s =
     (emit (map SourceStop (forEach (sourcesRef s))) s)
       \<lparr>sourcesRef := Dlist.empty, nextStartTimeRef := 0, isAiSpeaking := False\<rparr>"
  by (simp add: handleServerMessage_def)


lemma handleServerMessage_normal:
  "serverContent m = Some sc \<Longrightarrow> audioContextRef s = Some ctx \<Longrightarrow> \<not> interrupted sc \<Longrightarrow>
   handleServerMessage m d t s =
     (if truthy (inlineData sc) then
        (case d of
           Decoded ab \<Rightarrow> scheduleBuffer ab t ((noted sc s)\<lparr>isAiSpeaking := True\<rparr>)
         | DecodeRejected \<Rightarrow>
             emit [ConsoleError ''Error decoding audio''] ((noted sc s)\<lparr>isAiSpeaking := True\<rparr>))
      else noted sc s)"
  unfolding handleServerMessage_def noted_def Let_def by simp

lemma noted_simps:
  "trace (noted sc s) = trace s"
  "sourcesRef (noted sc s) = sourcesRef s"
  "nextStartTimeRef (noted sc s) = nextStartTimeRef s"
  "nextNodeId (noted sc s) = nextNodeId s"
  "isConnected (noted sc s) = isConnected s"
  "error (noted sc s) = error s"
  "audioContextRef (noted sc s) = audioContextRef s"
  "processorRef (noted sc s) = processorRef s"
  "sourceRef (noted sc s) = sourceRef s"
  "streamRef (noted sc s) = streamRef s"
  "inputContextRef (noted sc s) = inputContextRef s"
  "sessionRef (noted sc s) = sessionRef s"
  "isMuted (noted sc s) = isMuted s"
  "transcriptRef (noted sc s) = transcriptRef s @ transcriptLine ''User'' (inputTranscription sc)
      @ transcriptLine ''Tutor'' (outputTranscription sc)"
  "isAiSpeaking (noted sc s) = (isAiSpeaking s \<and> \<not> turnComplete sc)"
  by (simp_all add: noted_def appendTranscript_simps appendTranscript_refs
      appendTranscript_transcriptRef)


lemma scheduled_append: "scheduled (xs @ ys) = scheduled xs @ scheduled ys"
  by (induction xs rule: scheduled.induct) simp_all

lemma scheduled_stops: "scheduled (map SourceStop xs) = []"
  by (induction xs) simp_all

lemma emitted_emit: "emitted s ((emit es s)\<lparr>sourcesRef := a, nextStartTimeRef := b, isAiSpeaking := c\<rparr>) = es"
  by (simp add: emitted_def emit_def)

lemma emitted_self: "emitted s s = []"
  by (simp add: emitted_def)

lemmas handler_defs = connectToLiveApi_def connectToLiveApi_resumed_def onopen_def startAudioInput_def onclose_def
  onerror_def handleServerMessage_def appendTranscript_def scheduleBuffer_def onended_def
  onTimeout_def handleEndSession_def toggleMute_def onaudioprocess_def cleanup_def
  disconnectProcessor_def disconnectSource_def stopTracks_def closeInputContext_def
  closeAudioContext_def stopSources_def emit_def forEach_def Let_def firstRender_def

lemma endedSession_fields:
  "audioContextRef endedSession = None" "nextStartTimeRef endedSession = 11/2"
  "isAiSpeaking endedSession" "sourcesRef endedSession = Dlist.empty"
  by (simp_all add: endedSession_def initialState_def handler_defs micStream_def
      audioMessage_def plainContent_def duration_tone jsAdd_5_half)

subsection \<open>Traces of runs and the playback schedule\<close>

lemma handleServerMessage_trace:
  "\<exists>ys. trace (handleServerMessage m d t s) = trace s @ ys"
proof (cases "serverContent m")
  case None
  then show ?thesis by (simp add: handleServerMessage_no_content)
next
  case (Some sc)
  show ?thesis
  proof (cases "audioContextRef s")
    case None
    then show ?thesis by (simp add: handleServerMessage_no_context)
  next
    case ctx: (Some ctx)
    show ?thesis
    proof (cases "interrupted sc")
      case True
      show ?thesis unfolding handleServerMessage_interrupted[OF Some ctx True]
        by (simp add: emit_def)
    next
      case False
      show ?thesis unfolding handleServerMessage_normal[OF Some ctx False]
        by (cases d) (simp_all add: emit_def scheduleBuffer_simps noted_simps)
    qed
  qed
qed

lemma fire_trace: "\<exists>ys. trace (fire e s) = trace s @ ys"
proof (cases e)
  case (Message m d t)
  then show ?thesis using handleServerMessage_trace by simp
next
  case EndSession
  then show ?thesis by (simp add: handleEndSession_def Let_def emit_def cleanup_trace)
next
  case Unmount
  then show ?thesis by (simp add: cleanup_trace)
qed (auto simp: connectToLiveApi_def connectToLiveApi_resumed_def Let_def onopen_def
      startAudioInput_def onclose_def onerror_def emit_def onaudioprocess_def onended_def
      onTimeout_def toggleMute_def split: sum.splits option.splits)

lemma run_trace: "\<exists>ys. trace (run es s) = trace s @ ys"
proof (induction es arbitrary: s)
  case Nil
  then show ?case by simp
next
  case (Cons e es)
  obtain xs where 1: "trace (fire e s) = trace s @ xs" using fire_trace by blast
  obtain ys where 2: "trace (run es (fire e s)) = trace (fire e s) @ ys" using Cons by blast
  show ?case using 1 2 by simp
qed

lemma emitted_trans:
  assumes "trace s1 = trace s @ xs" "trace s2 = trace s1 @ ys"
  shows "emitted s s2 = emitted s s1 @ emitted s1 s2"
  using assms by (simp add: emitted_def)

lemma emitted_run_Cons:
  "emitted s (run (e # es) s) = emitted s (fire e s) @ emitted (fire e s) (run es (fire e s))"
proof -
  obtain xs where 1: "trace (fire e s) = trace s @ xs" using fire_trace by blast
  obtain ys where 2: "trace (run es (fire e s)) = trace (fire e s) @ ys" using run_trace by blast
  show ?thesis using emitted_trans[OF 1 2] by simp
qed

lemma cleanup_nextStartTimeRef: "nextStartTimeRef (cleanup s) = nextStartTimeRef s"
  by (simp add: cleanup_def disconnectProcessor_def disconnectSource_def stopTracks_def
      closeInputContext_def closeAudioContext_def stopSources_def emit_def split: option.splits)

lemma scheduled_tracks: "scheduled (map TrackStop xs) = []"
  by (induction xs) simp_all

lemma scheduled_releases: "scheduled (releases s) = []"
  by (cases "streamRef s")
     (simp_all add: releases_def scheduled_append scheduled_stops scheduled_tracks)

lemma handleServerMessage_step:
  assumes "uninterrupted (Message m d t)"
  shows "(scheduled (emitted s (handleServerMessage m d t s)) = []
          \<and> nextStartTimeRef (handleServerMessage m d t s) = nextStartTimeRef s)
       \<or> (\<exists>b. scheduled (emitted s (handleServerMessage m d t s))
                 = [(max (nextStartTimeRef s) t, b)]
              \<and> nextStartTimeRef (handleServerMessage m d t s)
                 = jsAdd (max (nextStartTimeRef s) t) (duration b))"
proof (cases "serverContent m")
  case None
  then show ?thesis by (simp add: handleServerMessage_no_content emitted_self)
next
  case (Some sc)
  then have ni: "\<not> interrupted sc" using assms by simp
  show ?thesis
  proof (cases "audioContextRef s")
    case None
    then show ?thesis by (simp add: handleServerMessage_no_context emitted_self)
  next
    case ctx: (Some ctx)
    show ?thesis unfolding handleServerMessage_normal[OF Some ctx ni]
      by (cases d) (simp_all add: emit_def emitted_def scheduleBuffer_simps noted_simps)
  qed
qed

lemma fire_step:
  assumes "uninterrupted e"
  shows "(scheduled (emitted s (fire e s)) = []
          \<and> nextStartTimeRef (fire e s) = nextStartTimeRef s)
       \<or> (\<exists>t b. scheduled (emitted s (fire e s)) = [(t, b)]
              \<and> nextStartTimeRef s \<le> t
              \<and> (doubleClock e \<and> 0 \<le> nextStartTimeRef s \<and> isDouble (nextStartTimeRef s)
                   \<longrightarrow> 0 \<le> t \<and> isDouble t)
              \<and> nextStartTimeRef (fire e s) = jsAdd t (duration b))"
proof (cases e)
  case (Message m d t)
  have "doubleClock e \<and> 0 \<le> nextStartTimeRef s \<and> isDouble (nextStartTimeRef s)
      \<longrightarrow> 0 \<le> max (nextStartTimeRef s) t \<and> isDouble (max (nextStartTimeRef s) t)"
    unfolding Message by (auto simp: max_def)
  with handleServerMessage_step[OF assms[unfolded Message], of s]
  show ?thesis unfolding Message by auto
next
  case EndSession
  then show ?thesis
    by (simp add: handleEndSession_def Let_def emit_def emitted_def cleanup_trace
        cleanup_nextStartTimeRef scheduled_append scheduled_releases)
next
  case Unmount
  then show ?thesis
    by (simp add: emitted_def cleanup_trace cleanup_nextStartTimeRef scheduled_releases)
qed (auto simp: connectToLiveApi_def connectToLiveApi_resumed_def Let_def onopen_def
      startAudioInput_def onclose_def onerror_def emit_def emitted_def onaudioprocess_def
      onended_def onTimeout_def toggleMute_def split: sum.splits option.splits)

lemma run_gapFree:
  assumes "list_all uninterrupted es"
  shows "gapFree (nextStartTimeRef s) (scheduled (emitted s (run es s)))"
  using assms
proof (induction es arbitrary: s)
  case Nil
  then show ?case by (simp add: emitted_self)
next
  case (Cons e es)
  then have e: "uninterrupted e" and es: "list_all uninterrupted es" by simp_all
  have ih: "gapFree (nextStartTimeRef (fire e s))
      (scheduled (emitted (fire e s) (run es (fire e s))))"
    by (rule Cons.IH[OF es])
  from fire_step[OF e, of s] show ?case
    unfolding emitted_run_Cons scheduled_append using ih by auto
qed

lemma run_starts_double:
  assumes "list_all uninterrupted es" and "list_all doubleClock es"
    and "0 \<le> nextStartTimeRef s" and "isDouble (nextStartTimeRef s)"
  shows "\<forall>x \<in> set (scheduled (emitted s (run es s))). 0 \<le> fst x \<and> isDouble (fst x)"
  using assms
proof (induction es arbitrary: s)
  case Nil
  then show ?case by (simp add: emitted_self)
next
  case (Cons e es)
  then have e: "uninterrupted e" "doubleClock e"
    and es: "list_all uninterrupted es" "list_all doubleClock es" by simp_all
  from fire_step[OF e(1), of s]
  have inv: "0 \<le> nextStartTimeRef (fire e s) \<and> isDouble (nextStartTimeRef (fire e s))"
    and first: "\<forall>x \<in> set (scheduled (emitted s (fire e s))). 0 \<le> fst x \<and> isDouble (fst x)"
    using e(2) Cons.prems(3,4) by (auto simp: jsAdd_nonneg isDouble_jsAdd duration_nonneg)
  have "\<forall>x \<in> set (scheduled (emitted (fire e s) (run es (fire e s)))).
      0 \<le> fst x \<and> isDouble (fst x)"
    using Cons.IH[OF es, of "fire e s"] inv by blast
  then show ?case unfolding emitted_run_Cons scheduled_append using first by auto
qed

lemma gapFree_lower:
  "gapFree lo xs \<Longrightarrow> \<forall>x \<in> set xs. 0 \<le> fst x \<and> isDouble (fst x) \<Longrightarrow>
     \<forall>x \<in> set xs. lo \<le> fst x"
proof (induction lo xs rule: gapFree.induct)
  case (2 lo t b xs)
  have "t \<le> jsAdd t (duration b)" using 2(3) by (simp add: jsAdd_ge duration_nonneg)
  moreover have "\<forall>x \<in> set xs. jsAdd t (duration b) \<le> fst x" using 2 by simp
  ultimately show ?case using 2(2) by fastforce
qed simp

lemma gapFree_sorted:
  "gapFree lo xs \<Longrightarrow> \<forall>x \<in> set xs. 0 \<le> fst x \<and> isDouble (fst x) \<Longrightarrow>
     sorted (map fst xs)"
proof (induction lo xs rule: gapFree.induct)
  case (2 lo t b xs)
  have "t \<le> jsAdd t (duration b)" using 2(3) by (simp add: jsAdd_ge duration_nonneg)
  moreover have "\<forall>x \<in> set xs. jsAdd t (duration b) \<le> fst x"
    using 2(2,3) gapFree_lower[of "jsAdd t (duration b)" xs] by simp
  ultimately show ?case using 2 by fastforce
qed simp

lemma gapFree_nth:
  "gapFree lo xs \<Longrightarrow> Suc k < length xs \<Longrightarrow>
     jsAdd (fst (xs ! k)) (duration (snd (xs ! k))) \<le> fst (xs ! Suc k)"
proof (induction lo xs arbitrary: k rule: gapFree.induct)
  case (2 lo t b xs)
  show ?case
  proof (cases k)
    case 0
    then show ?thesis using 2 by (cases xs) auto
  next
    case (Suc j)
    then show ?thesis using 2 by simp
  qed
qed simp

lemma liveSession_fields:
  "audioContextRef liveSession = Some (AudioContext 24000)" "nextStartTimeRef liveSession = 0"
  "nextNodeId liveSession = 0" "trace liveSession = []" "sourcesRef liveSession = Dlist.empty"
  "processorRef liveSession = Some \<lparr>bufferSize = 4096, onaudioprocess_scope = firstRender\<rparr>"
  "isConnected liveSession" "\<not> isMuted liveSession" "\<not> isAiSpeaking liveSession"
  "transcriptRef liveSession = []" "error liveSession = None"
  by (simp_all add: liveSession_def initialState_def connectToLiveApi_def
      connectToLiveApi_resumed_def onopen_def startAudioInput_def Let_def)

text \<open>One audio message whose buffer decodes, handled while the output context exists.\<close>

lemma audio_step:
  assumes "audioContextRef s = Some ctx"
  shows "audioContextRef (handleServerMessage audioMessage (Decoded b) t s) = Some ctx"
    and "trace (handleServerMessage audioMessage (Decoded b) t s)
      = trace s @ [SourceStart (nextNodeId s) (max (nextStartTimeRef s) t) b]"
    and "nextStartTimeRef (handleServerMessage audioMessage (Decoded b) t s)
      = jsAdd (max (nextStartTimeRef s) t) (duration b)"
    and "nextNodeId (handleServerMessage audioMessage (Decoded b) t s) = Suc (nextNodeId s)"
proof -
  have c: "serverContent audioMessage = Some (plainContent\<lparr>inlineData := Some ''AAAA''\<rparr>)"
    by (simp add: audioMessage_def)
  have i: "\<not> interrupted (plainContent\<lparr>inlineData := Some ''AAAA''\<rparr>)"
    by (simp add: plainContent_def)
  have e: "handleServerMessage audioMessage (Decoded b) t s = scheduleBuffer b t
      ((noted (plainContent\<lparr>inlineData := Some ''AAAA''\<rparr>) s)\<lparr>isAiSpeaking := True\<rparr>)"
    using handleServerMessage_normal[OF c assms i] by simp
  show "audioContextRef (handleServerMessage audioMessage (Decoded b) t s) = Some ctx"
    and "trace (handleServerMessage audioMessage (Decoded b) t s)
      = trace s @ [SourceStart (nextNodeId s) (max (nextStartTimeRef s) t) b]"
    and "nextStartTimeRef (handleServerMessage audioMessage (Decoded b) t s)
      = jsAdd (max (nextStartTimeRef s) t) (duration b)"
    and "nextNodeId (handleServerMessage audioMessage (Decoded b) t s) = Suc (nextNodeId s)"
    unfolding e by (simp_all add: scheduleBuffer_simps noted_simps assms)
qed

lemma isDouble_41_8: "isDouble (41/8)"
  unfolding isDouble_def
  by (subst roundDouble_in_binade[where k = 2]) (simp_all add: roundHalfEven_def)

lemma two_buffers_back_to_back:
  "scheduled (emitted liveSession
     (run [Message audioMessage (Decoded tone) 5, Message audioMessage (Decoded tone) (41/8)]
        liveSession)) = [(5, tone), (11/2, tone)]"
proof -
  let ?s1 = "handleServerMessage audioMessage (Decoded tone) 5 liveSession"
  note s1 = audio_step[OF liveSession_fields(1), of tone 5]
  have n1: "nextStartTimeRef ?s1 = 11/2"
    by (simp add: s1 liveSession_fields duration_tone jsAdd_5_half)
  let ?s2 = "handleServerMessage audioMessage (Decoded tone) (41/8) ?s1"
  note s2 = audio_step[OF s1(1), of tone "41/8"]
  have "trace ?s2 = [SourceStart 0 5 tone, SourceStart 1 (11/2) tone]"
    by (simp add: s2 s1(2,4) n1 liveSession_fields)
  then show ?thesis by (simp add: emitted_def liveSession_fields)
qed

text \<open>The doubles that five buffers of a tenth of a second produce from clock time 0.\<close>

lemma duration_tenth: "duration tenth = 3602879701896397 / 36028797018963968"
  unfolding duration_def jsDiv_def tenth_def
  by (subst roundDouble_in_binade[where k = "- 4"]) (simp_all add: roundHalfEven_def)

lemma tenths_sums:
  "jsAdd 0 (3602879701896397 / 36028797018963968) = 3602879701896397 / 36028797018963968"
  "jsAdd (3602879701896397 / 36028797018963968) (3602879701896397 / 36028797018963968)
     = 3602879701896397 / 18014398509481984"
  "jsAdd (3602879701896397 / 18014398509481984) (3602879701896397 / 36028797018963968)
     = 1351079888211149 / 4503599627370496"
  "jsAdd (1351079888211149 / 4503599627370496) (3602879701896397 / 36028797018963968)
     = 3602879701896397 / 9007199254740992"
  unfolding jsAdd_def
  by (subst roundDouble_in_binade[where k = "- 4"], simp_all add: roundHalfEven_def,
      subst roundDouble_in_binade[where k = "- 3"], simp_all add: roundHalfEven_def,
      subst roundDouble_in_binade[where k = "- 2"], simp_all add: roundHalfEven_def,
      subst roundDouble_in_binade[where k = "- 2"], simp_all add: roundHalfEven_def)

lemma five_tenths_schedule:
  "scheduled (emitted liveSession (run fiveTenths liveSession)) =
     [(0, tenth), (3602879701896397 / 36028797018963968, tenth),
      (3602879701896397 / 18014398509481984, tenth),
      (1351079888211149 / 4503599627370496, tenth),
      (3602879701896397 / 9007199254740992, tenth)]"
proof -
  let ?s1 = "handleServerMessage audioMessage (Decoded tenth) 0 liveSession"
  let ?s2 = "handleServerMessage audioMessage (Decoded tenth) 0 ?s1"
  let ?s3 = "handleServerMessage audioMessage (Decoded tenth) 0 ?s2"
  let ?s4 = "handleServerMessage audioMessage (Decoded tenth) 0 ?s3"
  let ?s5 = "handleServerMessage audioMessage (Decoded tenth) 0 ?s4"
  note s1 = audio_step[OF liveSession_fields(1), of tenth 0]
  note s2 = audio_step[OF s1(1), of tenth 0]
  note s3 = audio_step[OF s2(1), of tenth 0]
  note s4 = audio_step[OF s3(1), of tenth 0]
  note s5 = audio_step[OF s4(1), of tenth 0]
  have n1: "nextStartTimeRef ?s1 = 3602879701896397 / 36028797018963968"
    by (simp add: s1(3) liveSession_fields duration_tenth tenths_sums(1))
  have n2: "nextStartTimeRef ?s2 = 3602879701896397 / 18014398509481984"
    by (simp add: s2(3) n1 duration_tenth tenths_sums(2))
  have n3: "nextStartTimeRef ?s3 = 1351079888211149 / 4503599627370496"
    by (simp add: s3(3) n2 duration_tenth tenths_sums(3))
  have n4: "nextStartTimeRef ?s4 = 3602879701896397 / 9007199254740992"
    by (simp add: s4(3) n3 duration_tenth tenths_sums(4))
  have "trace ?s5 =
     [SourceStart 0 0 tenth, SourceStart 1 (3602879701896397 / 36028797018963968) tenth,
      SourceStart 2 (3602879701896397 / 18014398509481984) tenth,
      SourceStart 3 (1351079888211149 / 4503599627370496) tenth,
      SourceStart 4 (3602879701896397 / 9007199254740992) tenth]"
    by (simp add: s5(2) s4(2,4) s3(2,4) s2(2,4) s1(2,4) n1 n2 n3 n4 liveSession_fields)
  then show ?thesis by (simp add: emitted_def liveSession_fields fiveTenths_def)
qed

subsection \<open>The transcript\<close>

lemma handleServerMessage_audioContextRef:
  "audioContextRef (handleServerMessage m d t s) = audioContextRef s"
proof (cases "serverContent m")
  case None
  then show ?thesis by (simp add: handleServerMessage_no_content)
next
  case (Some sc)
  show ?thesis
  proof (cases "audioContextRef s")
    case None
    then show ?thesis by (simp add: handleServerMessage_no_context)
  next
    case ctx: (Some ctx)
    show ?thesis
    proof (cases "interrupted sc")
      case True
      show ?thesis unfolding handleServerMessage_interrupted[OF Some ctx True]
        by (simp add: emit_def)
    next
      case False
      show ?thesis unfolding handleServerMessage_normal[OF Some ctx False]
        by (cases d) (simp_all add: emit_def scheduleBuffer_simps noted_simps)
    qed
  qed
qed

lemma handleServerMessage_transcriptRef:
  assumes "audioContextRef s = Some ctx"
  shows "transcriptRef (handleServerMessage m d t s)
     = transcriptRef s @ transcriptLines (Message m d t)"
proof (cases "serverContent m")
  case None
  then show ?thesis by (simp add: handleServerMessage_no_content)
next
  case (Some sc)
  show ?thesis
  proof (cases "interrupted sc")
    case True
    show ?thesis unfolding handleServerMessage_interrupted[OF Some assms True]
      using Some True by (simp add: emit_def)
  next
    case False
    show ?thesis unfolding handleServerMessage_normal[OF Some assms False]
      using Some False
      by (cases d) (simp_all add: emit_def scheduleBuffer_simps noted_simps)
  qed
qed

lemma says_lines:
  "transcriptLines (Message (userSays a) d t) = transcriptLine ''User'' (Some a)"
  "transcriptLines (Message (tutorSays a) d t) = transcriptLine ''Tutor'' (Some a)"
  "transcriptLines (Message (tutorSaysInterrupted a) d t) = []"
  by (simp_all add: userSays_def tutorSays_def tutorSaysInterrupted_def plainContent_def
      transcriptLine_def)

subsection \<open>Capture, mute and connection state\<close>

lemma toggleMute_keeps_capture:
  "trace (toggleMute s) = trace s" "processorRef (toggleMute s) = processorRef s"
  "sourceRef (toggleMute s) = sourceRef s" "streamRef (toggleMute s) = streamRef s"
  "inputContextRef (toggleMute s) = inputContextRef s"
  "audioContextRef (toggleMute s) = audioContextRef s"
  "isMuted (toggleMute s) = (\<not> isMuted s)"
  by (simp_all add: toggleMute_def)

lemma mutedSession_fields:
  "isMuted mutedSession"
  "processorRef mutedSession = Some \<lparr>bufferSize = 4096, onaudioprocess_scope = firstRender\<rparr>"
  by (simp_all add: mutedSession_def initialState_def connectToLiveApi_def connectToLiveApi_resumed_def onopen_def
      startAudioInput_def toggleMute_def Let_def)

lemma handleServerMessage_processorRef:
  "processorRef (handleServerMessage m d t s) = processorRef s"
proof (cases "serverContent m")
  case None
  then show ?thesis by (simp add: handleServerMessage_no_content)
next
  case (Some sc)
  show ?thesis
  proof (cases "audioContextRef s")
    case None
    then show ?thesis by (simp add: handleServerMessage_no_context)
  next
    case ctx: (Some ctx)
    show ?thesis
    proof (cases "interrupted sc")
      case True
      show ?thesis unfolding handleServerMessage_interrupted[OF Some ctx True]
        by (simp add: emit_def)
    next
      case False
      show ?thesis unfolding handleServerMessage_normal[OF Some ctx False]
        by (cases d) (simp_all add: emit_def scheduleBuffer_def Let_def noted_simps)
    qed
  qed
qed

lemma capture_closure_step:
  assumes "processorRef s = None \<or>
      processorRef s = Some \<lparr>bufferSize = 4096, onaudioprocess_scope = firstRender\<rparr>"
  shows "processorRef (fire e s) = None \<or>
      processorRef (fire e s) = Some \<lparr>bufferSize = 4096, onaudioprocess_scope = firstRender\<rparr>"
proof (cases e)
  case Mount
  then show ?thesis using assms by (simp add: connectToLiveApi_def)
next
  case (UserMedia u)
  then show ?thesis using assms
    by (cases u) (simp_all add: connectToLiveApi_resumed_def emit_def)
next
  case (Open st)
  then show ?thesis using assms
    by (cases "inputContextRef s") (simp_all add: onopen_def startAudioInput_def)
next
  case (Message m d t)
  then show ?thesis using assms by (simp add: handleServerMessage_processorRef)
next
  case (CaptureWindow w)
  then show ?thesis using assms
    by (cases "processorRef s") (simp_all add: onaudioprocess_def emit_def)
next
  case (Ended i)
  then show ?thesis using assms by (simp add: onended_def Let_def emit_def)
next
  case EndSession
  then show ?thesis by (simp add: handleEndSession_def Let_def emit_def cleanup_fields)
next
  case Unmount
  then show ?thesis by (simp add: cleanup_fields)
qed (use assms in \<open>simp_all add: onclose_def onerror_def emit_def onTimeout_def toggleMute_def\<close>)

lemma capture_closure_run:
  "processorRef s = None \<or>
      processorRef s = Some \<lparr>bufferSize = 4096, onaudioprocess_scope = firstRender\<rparr> \<Longrightarrow>
   processorRef (run es s) = None \<or>
      processorRef (run es s) = Some \<lparr>bufferSize = 4096, onaudioprocess_scope = firstRender\<rparr>"
proof (induction es arbitrary: s)
  case Nil
  then show ?case by simp
next
  case (Cons e es)
  show ?case using Cons.IH[OF capture_closure_step[OF Cons.prems]] by simp
qed

lemma capture_closure_is_first_render:
  assumes "processorRef (run es initialState) = Some p"
  shows "onaudioprocess_scope p = firstRender"
proof -
  have "processorRef initialState = None" by (simp add: initialState_def)
  then have "processorRef (run es initialState) = None \<or> processorRef (run es initialState)
      = Some \<lparr>bufferSize = 4096, onaudioprocess_scope = firstRender\<rparr>"
    by (intro capture_closure_run) simp
  then show ?thesis using assms by auto
qed

subsection \<open>The speaking flag\<close>

lemma speakingSession_fields:
  "isAiSpeaking speakingSession" "list_of_dlist (sourcesRef speakingSession) = [0]"
  "audioContextRef speakingSession = Some (AudioContext 24000)"
  "trace speakingSession = [SourceStart 0 5 tone]"
  by (simp_all add: speakingSession_def initialState_def connectToLiveApi_def connectToLiveApi_resumed_def onopen_def
      startAudioInput_def handleServerMessage_def audioMessage_def plainContent_def
      appendTranscript_def scheduleBuffer_def emit_def Let_def)

lemma speakingWhileActive_handleServerMessage:
  assumes "speakingWhileActive s" and "\<not> bareTurnComplete (Message m d t)"
  shows "speakingWhileActive (handleServerMessage m d t s)"
proof (cases "serverContent m")
  case None
  then show ?thesis using assms by (simp add: handleServerMessage_no_content)
next
  case (Some sc)
  show ?thesis
  proof (cases "audioContextRef s")
    case None
    then show ?thesis using assms by (simp add: handleServerMessage_no_context)
  next
    case ctx: (Some ctx)
    show ?thesis
    proof (cases "interrupted sc")
      case True
      show ?thesis unfolding handleServerMessage_interrupted[OF Some ctx True]
        by (simp add: speakingWhileActive_def emit_def Dlist.null_def)
    next
      case False
      show ?thesis unfolding handleServerMessage_normal[OF Some ctx False]
        using assms Some False
        by (cases d) (auto simp: speakingWhileActive_def emit_def scheduleBuffer_simps
            noted_simps)
    qed
  qed
qed

lemma speakingWhileActive_fire:
  assumes "speakingWhileActive s" and "\<not> bareTurnComplete e"
  shows "speakingWhileActive (fire e s)"
proof (cases e)
  case (Message m d t)
  then show ?thesis using speakingWhileActive_handleServerMessage assms by simp
next
  case EndSession
  then show ?thesis
    by (simp add: speakingWhileActive_def handleEndSession_def Let_def emit_def
        cleanup_fields Dlist.null_def)
next
  case Unmount
  then show ?thesis by (simp add: speakingWhileActive_def cleanup_fields Dlist.null_def)
next
  case (Ended i)
  have "remove1 i xs = [] \<or> xs \<noteq> []" for xs :: "nat list" by (cases xs) auto
  then show ?thesis using assms(1) Ended
    by (auto simp: speakingWhileActive_def onended_def Let_def emit_def Dlist.null_def)
qed (use assms(1) in \<open>auto simp: speakingWhileActive_def connectToLiveApi_def connectToLiveApi_resumed_def Let_def onopen_def
      startAudioInput_def onclose_def onerror_def emit_def onaudioprocess_def onTimeout_def
      toggleMute_def split: sum.splits option.splits\<close>)

lemma natural_completion_is_debounced:
  "isAiSpeaking (onended i s) = isAiSpeaking s"
  "emitted s (onended i s) =
     (if Dlist.null (Dlist.remove i (sourcesRef s)) then [SetTimeout 200] else [])"
  "isAiSpeaking (onTimeout s) = (isAiSpeaking s \<and> \<not> Dlist.null (sourcesRef s))"
  by (simp_all add: onended_def onTimeout_def Let_def emit_def emitted_def)

subsection \<open>The codec\<close>




























subsection \<open>A message flagged interrupted\<close>

text \<open>
  C10. A message whose \<open>serverContent\<close> has \<open>interrupted\<close> set is handled by the
  early return alone: the transcript is not appended to, no source node is created,
  nothing is scheduled, no decode failure is logged (no decode is attempted: the
  outcome \<open>d\<close> and the clock \<open>t\<close> are not read), and the result is the same as
  for the message stripped of its transcription texts, turn-complete flag and audio.
\<close>
theorem interrupted_message_discards_payload:
  assumes "serverContent m = Some sc" and "interrupted sc"
  shows "transcriptRef (handleServerMessage m d t s) = transcriptRef s
    \<and> nextNodeId (handleServerMessage m d t s) = nextNodeId s
    \<and> scheduled (emitted s (handleServerMessage m d t s)) = []
    \<and> ConsoleError ''Error decoding audio'' \<notin> set (emitted s (handleServerMessage m d t s))
    \<and> handleServerMessage m d t s =
        handleServerMessage \<lparr>serverContent = Some (withoutPayload sc)\<rparr> d' t' s"
proof (cases "audioContextRef s")
  case None
  then show ?thesis by (simp add: handleServerMessage_no_context emitted_self)
next
  case (Some ctx)
  have i: "interrupted (withoutPayload sc)" using assms(2) by (simp add: withoutPayload_def)
  have w: "serverContent \<lparr>serverContent = Some (withoutPayload sc)\<rparr> = Some (withoutPayload sc)"
    by simp
  show ?thesis
    unfolding handleServerMessage_interrupted[OF assms(1) Some assms(2)]
      handleServerMessage_interrupted[OF w Some i]
    by (auto simp: emitted_def scheduled_stops emit_def)
qed

theorem interrupted_message_discards_payload_witness:
  "serverContent interruptedWithPayload \<noteq> None
   \<and> transcriptRef (handleServerMessage interruptedWithPayload (Decoded tone) 2 sampleSession) = []
   \<and> emitted sampleSession (handleServerMessage interruptedWithPayload (Decoded tone) 2 sampleSession)
        = [SourceStop 0, SourceStop 1]"
proof -
  have c: "serverContent interruptedWithPayload = Some (plainContent\<lparr>interrupted := True,
     inputTranscription := Some ''stop'', outputTranscription := Some ''Well'',
     inlineData := Some ''AAAA''\<rparr>)" by (simp add: interruptedWithPayload_def)
  have i: "interrupted (plainContent\<lparr>interrupted := True,
     inputTranscription := Some ''stop'', outputTranscription := Some ''Well'',
     inlineData := Some ''AAAA''\<rparr>)" by simp
  have e: "emitted sampleSession (handleServerMessage interruptedWithPayload (Decoded tone) 2 sampleSession)
        = [SourceStop 0, SourceStop 1]"
    by (simp add: handleServerMessage_def c sampleSession_def initialState_def emitted_def
        emit_def forEach_def)
  from interrupted_message_discards_payload[OF c i, of "Decoded tone" 2 sampleSession]
  show ?thesis using c e by (simp add: sampleSession_def initialState_def)
qed

subsection \<open>Interruption\<close>

text \<open>
  After the session has ended the output context ref is null and the guard of line
  151 returns before the interruption branch: \<open>nextStartTime\<close> keeps its value and
  the speaking flag stays set.
\<close>

theorem interruption_without_context_counterexample:
  "nextStartTimeRef (handleServerMessage interruptMessage DecodeRejected 6 endedSession) \<noteq> 0
   \<and> isAiSpeaking (handleServerMessage interruptMessage DecodeRejected 6 endedSession)"
  by (simp add: handleServerMessage_no_context endedSession_fields)

text \<open>
  C2 (as amended). While the output audio context exists, a message flagged
  interrupted stops every source of the active set (each once, in insertion order),
  empties the set, resets \<open>nextStartTime\<close> to zero and clears the speaking flag in
  the same handler run, with no timer set. Without an output context the message is
  ignored and the state is unchanged.
\<close>

theorem interruption_clears_playback:
  assumes "serverContent m = Some sc" and "interrupted sc"
  shows "(audioContextRef s \<noteq> None \<longrightarrow>
            emitted s (handleServerMessage m d t s) = map SourceStop (forEach (sourcesRef s))
          \<and> sourcesRef (handleServerMessage m d t s) = Dlist.empty
          \<and> \<not> Dlist.member (sourcesRef (handleServerMessage m d t s)) i
          \<and> nextStartTimeRef (handleServerMessage m d t s) = 0
          \<and> \<not> isAiSpeaking (handleServerMessage m d t s)
          \<and> SetTimeout 200 \<notin> set (emitted s (handleServerMessage m d t s)))
       \<and> (audioContextRef s = None \<longrightarrow> handleServerMessage m d t s = s)"
proof (cases "audioContextRef s")
  case None
  then show ?thesis by (simp add: handleServerMessage_no_context)
next
  case (Some ctx)
  show ?thesis
    unfolding handleServerMessage_interrupted[OF assms(1) Some assms(2)]
    by (auto simp: Some emitted_def emit_def Dlist.member_def)
qed

theorem interruption_clears_playback_witness:
  "serverContent interruptMessage \<noteq> None \<and> audioContextRef sampleSession \<noteq> None
   \<and> emitted sampleSession (handleServerMessage interruptMessage DecodeRejected 3 sampleSession)
       = [SourceStop 0, SourceStop 1]
   \<and> sourcesRef (handleServerMessage interruptMessage DecodeRejected 3 sampleSession) = Dlist.empty
   \<and> nextStartTimeRef (handleServerMessage interruptMessage DecodeRejected 3 sampleSession) = 0
   \<and> \<not> isAiSpeaking (handleServerMessage interruptMessage DecodeRejected 3 sampleSession)"
proof -
  have c: "serverContent interruptMessage = Some (plainContent\<lparr>interrupted := True\<rparr>)"
    by (simp add: interruptMessage_def)
  have i: "interrupted (plainContent\<lparr>interrupted := True\<rparr>)" by simp
  have a: "audioContextRef sampleSession \<noteq> None" by (simp add: sampleSession_def)
  have f: "forEach (sourcesRef sampleSession) = [0, 1]"
    by (simp add: sampleSession_def forEach_def)
  from interruption_clears_playback[OF c i, of sampleSession DecodeRejected 3 0]
  show ?thesis using c a f by simp
qed

subsection \<open>A buffer that fails to decode\<close>

text \<open>
  C6. When \<open>decodeAudioData\<close> rejects, the handler logs the error and does nothing
  else: \<open>nextStartTime\<close>, the active set and the node counter are unchanged, the
  connection flag, the error text and every resource ref are unchanged (the session is
  not torn down), and a later audio message is decoded and scheduled exactly as the
  scheduler state before the failure dictates.
\<close>

theorem decode_failure_skips_buffer:
  assumes "serverContent m = Some sc" and "audioContextRef s = Some ctx"
    and "\<not> interrupted sc" and "truthy (inlineData sc)"
  shows "emitted s (handleServerMessage m DecodeRejected t s) = [ConsoleError ''Error decoding audio'']
    \<and> nextStartTimeRef (handleServerMessage m DecodeRejected t s) = nextStartTimeRef s
    \<and> sourcesRef (handleServerMessage m DecodeRejected t s) = sourcesRef s
    \<and> nextNodeId (handleServerMessage m DecodeRejected t s) = nextNodeId s
    \<and> isConnected (handleServerMessage m DecodeRejected t s) = isConnected s
    \<and> error (handleServerMessage m DecodeRejected t s) = error s
    \<and> audioContextRef (handleServerMessage m DecodeRejected t s) = audioContextRef s
    \<and> inputContextRef (handleServerMessage m DecodeRejected t s) = inputContextRef s
    \<and> streamRef (handleServerMessage m DecodeRejected t s) = streamRef s
    \<and> processorRef (handleServerMessage m DecodeRejected t s) = processorRef s
    \<and> sourceRef (handleServerMessage m DecodeRejected t s) = sourceRef s
    \<and> sessionRef (handleServerMessage m DecodeRejected t s) = sessionRef s
    \<and> (serverContent m' = Some sc' \<and> \<not> interrupted sc' \<and> truthy (inlineData sc') \<longrightarrow>
         emitted (handleServerMessage m DecodeRejected t s)
           (handleServerMessage m' (Decoded b) t' (handleServerMessage m DecodeRejected t s))
           = [SourceStart (nextNodeId s) (max (nextStartTimeRef s) t') b]
       \<and> nextStartTimeRef
           (handleServerMessage m' (Decoded b) t' (handleServerMessage m DecodeRejected t s))
           = jsAdd (max (nextStartTimeRef s) t') (duration b)
       \<and> sourcesRef
           (handleServerMessage m' (Decoded b) t' (handleServerMessage m DecodeRejected t s))
           = Dlist.insert (nextNodeId s) (sourcesRef s))"
proof -
  let ?s' = "handleServerMessage m DecodeRejected t s"
  have eq: "?s' = emit [ConsoleError ''Error decoding audio''] ((noted sc s)\<lparr>isAiSpeaking := True\<rparr>)"
    using handleServerMessage_normal[OF assms(1,2,3)] assms(4) by simp
  have first: "emitted s ?s' = [ConsoleError ''Error decoding audio'']"
    "nextStartTimeRef ?s' = nextStartTimeRef s" "sourcesRef ?s' = sourcesRef s"
    "nextNodeId ?s' = nextNodeId s" "isConnected ?s' = isConnected s" "error ?s' = error s"
    "audioContextRef ?s' = audioContextRef s" "inputContextRef ?s' = inputContextRef s"
    "streamRef ?s' = streamRef s" "processorRef ?s' = processorRef s"
    "sourceRef ?s' = sourceRef s" "sessionRef ?s' = sessionRef s"
    unfolding eq by (simp_all add: emit_def emitted_def noted_simps)
  have later: "emitted ?s' (handleServerMessage m' (Decoded b) t' ?s')
           = [SourceStart (nextNodeId s) (max (nextStartTimeRef s) t') b]
       \<and> nextStartTimeRef (handleServerMessage m' (Decoded b) t' ?s')
           = jsAdd (max (nextStartTimeRef s) t') (duration b)
       \<and> sourcesRef (handleServerMessage m' (Decoded b) t' ?s')
           = Dlist.insert (nextNodeId s) (sourcesRef s)"
    if m': "serverContent m' = Some sc'" "\<not> interrupted sc'" "truthy (inlineData sc')"
  proof -
    have c': "audioContextRef ?s' = Some ctx" using first(7) assms(2) by simp
    have eq': "handleServerMessage m' (Decoded b) t' ?s' =
        scheduleBuffer b t' ((noted sc' ?s')\<lparr>isAiSpeaking := True\<rparr>)"
      using handleServerMessage_normal[OF m'(1) c' m'(2)] m'(3) by simp
    show ?thesis unfolding eq'
      by (simp add: scheduleBuffer_simps noted_simps emitted_def first)
  qed
  show ?thesis using first later by blast
qed

theorem decode_failure_skips_buffer_witness:
  "serverContent audioMessage \<noteq> None \<and> audioContextRef sampleSession \<noteq> None
   \<and> emitted sampleSession (handleServerMessage audioMessage DecodeRejected 1 sampleSession)
       = [ConsoleError ''Error decoding audio'']
   \<and> nextStartTimeRef (handleServerMessage audioMessage DecodeRejected 1 sampleSession) = 2
   \<and> emitted (handleServerMessage audioMessage DecodeRejected 1 sampleSession)
        (handleServerMessage audioMessage (Decoded tone) 1
          (handleServerMessage audioMessage DecodeRejected 1 sampleSession))
       = [SourceStart 2 2 tone]
   \<and> nextStartTimeRef (handleServerMessage audioMessage (Decoded tone) 1
          (handleServerMessage audioMessage DecodeRejected 1 sampleSession)) = 5/2"
proof -
  have c: "serverContent audioMessage = Some (plainContent\<lparr>inlineData := Some ''AAAA''\<rparr>)"
    by (simp add: audioMessage_def)
  have a: "audioContextRef sampleSession = Some (AudioContext 24000)"
    by (simp add: sampleSession_def)
  have i: "\<not> interrupted (plainContent\<lparr>inlineData := Some ''AAAA''\<rparr>)"
    by (simp add: plainContent_def)
  have d: "truthy (inlineData (plainContent\<lparr>inlineData := Some ''AAAA''\<rparr>))" by simp
  have f: "nextStartTimeRef sampleSession = 2" "nextNodeId sampleSession = 2"
    by (simp_all add: sampleSession_def)
  have t: "duration tone = 1/2" "jsAdd 2 (1/2) = 5/2" by (rule duration_tone, rule jsAdd_2_half)
  from decode_failure_skips_buffer[OF c a i d, of 1 audioMessage
      "plainContent\<lparr>inlineData := Some ''AAAA''\<rparr>" tone 1]
  show ?thesis using c a i d f t by simp
qed

subsection \<open>Playback scheduling\<close>

text \<open>
  Five buffers of a tenth of a second arrive at clock time 0. The program starts the
  fourth at 0.30000000000000004 and the fifth at 0.4 (both written here as the exact
  fractions the doubles denote); the duration is the double nearest to 0.1. The fourth
  start plus the duration is above the fifth start by 2^-55: the sum the program
  stored in \<open>nextStartTime\<close> was rounded down to the nearest double.
\<close>

theorem playback_gap_rounding_counterexample:
  "map fst (scheduled (emitted liveSession (run fiveTenths liveSession)))
     = [0, 3602879701896397 / 36028797018963968, 3602879701896397 / 18014398509481984,
        1351079888211149 / 4503599627370496, 3602879701896397 / 9007199254740992]
   \<and> list_all uninterrupted fiveTenths
   \<and> fst (scheduled (emitted liveSession (run fiveTenths liveSession)) ! 4)
       < fst (scheduled (emitted liveSession (run fiveTenths liveSession)) ! 3)
         + duration (snd (scheduled (emitted liveSession (run fiveTenths liveSession)) ! 3))"
proof -
  have u: "list_all uninterrupted fiveTenths"
    by (simp add: fiveTenths_def audioMessage_def plainContent_def)
  show ?thesis unfolding five_tenths_schedule using u by (simp add: duration_tenth)
qed

text \<open>
  C1 (as amended). For any sequence of events that contains no message flagged
  interrupted: each decoded buffer is started at \<open>nextStartTime\<close>, after
  \<open>nextStartTime\<close> has been reset to the clock's current time if it was in the past,
  and \<open>nextStartTime\<close> is then set to the double-precision sum of that start time
  and the buffer's duration (the exact sum rounded to the nearest double); each start
  time handed to \<open>source.start\<close> is at or after that double-precision sum for the
  buffer started before it; and, the clock readings and the initial \<open>nextStartTime\<close>
  being non-negative doubles, the start times are non-decreasing.
\<close>

theorem playback_is_gap_free:
  assumes "list_all uninterrupted es"
  shows "(Suc k < length (scheduled (emitted s (run es s))) \<longrightarrow>
          jsAdd (fst (scheduled (emitted s (run es s)) ! k))
            (duration (snd (scheduled (emitted s (run es s)) ! k)))
          \<le> fst (scheduled (emitted s (run es s)) ! Suc k))
    \<and> (list_all doubleClock es \<and> 0 \<le> nextStartTimeRef s \<and> isDouble (nextStartTimeRef s)
          \<longrightarrow> sorted (map fst (scheduled (emitted s (run es s)))))
    \<and> (audioContextRef s = Some ctx \<and> serverContent m = Some sc \<and> \<not> interrupted sc
          \<and> truthy (inlineData sc) \<longrightarrow>
          emitted s (handleServerMessage m (Decoded b) t s)
            = [SourceStart (nextNodeId s)
                 (if nextStartTimeRef s < t then t else nextStartTimeRef s) b]
        \<and> nextStartTimeRef (handleServerMessage m (Decoded b) t s)
            = jsAdd (if nextStartTimeRef s < t then t else nextStartTimeRef s) (duration b))"
proof -
  have g: "gapFree (nextStartTimeRef s) (scheduled (emitted s (run es s)))"
    by (rule run_gapFree[OF assms])
  have srt: "sorted (map fst (scheduled (emitted s (run es s))))"
    if "list_all doubleClock es" "0 \<le> nextStartTimeRef s" "isDouble (nextStartTimeRef s)"
    by (rule gapFree_sorted[OF g run_starts_double[OF assms that]])
  have one: "emitted s (handleServerMessage m (Decoded b) t s)
            = [SourceStart (nextNodeId s)
                 (if nextStartTimeRef s < t then t else nextStartTimeRef s) b]
        \<and> nextStartTimeRef (handleServerMessage m (Decoded b) t s)
            = jsAdd (if nextStartTimeRef s < t then t else nextStartTimeRef s) (duration b)"
    if "audioContextRef s = Some ctx" "serverContent m = Some sc" "\<not> interrupted sc"
       "truthy (inlineData sc)"
    using handleServerMessage_normal[OF that(2,1,3), of "Decoded b" t] that(4)
    by (simp add: scheduleBuffer_simps noted_simps emitted_def max_def)
  show ?thesis using srt gapFree_nth[OF g, of k] one by blast
qed

theorem playback_is_gap_free_witness:
  "list_all uninterrupted
     [Message audioMessage (Decoded tone) 5, Message audioMessage (Decoded tone) (41/8)]
   \<and> list_all doubleClock
     [Message audioMessage (Decoded tone) 5, Message audioMessage (Decoded tone) (41/8)]
   \<and> isDouble (nextStartTimeRef liveSession)
   \<and> scheduled (emitted liveSession
     (run [Message audioMessage (Decoded tone) 5, Message audioMessage (Decoded tone) (41/8)]
        liveSession)) = [(5, tone), (11/2, tone)]
   \<and> jsAdd 5 (duration tone) \<le> 11/2
   \<and> sorted [5, 11/2 :: real]
   \<and> emitted liveSession (handleServerMessage audioMessage (Decoded tone) 5 liveSession)
       = [SourceStart 0 5 tone]
   \<and> nextStartTimeRef (handleServerMessage audioMessage (Decoded tone) 5 liveSession)
       = jsAdd 5 (duration tone)"
proof -
  have u: "list_all uninterrupted
     [Message audioMessage (Decoded tone) 5, Message audioMessage (Decoded tone) (41/8)]"
    by (simp add: audioMessage_def plainContent_def)
  have dc: "list_all doubleClock
     [Message audioMessage (Decoded tone) 5, Message audioMessage (Decoded tone) (41/8)]"
    by (simp add: isDouble_5 isDouble_41_8)
  have n: "0 \<le> nextStartTimeRef liveSession" "isDouble (nextStartTimeRef liveSession)"
    by (simp_all add: liveSession_fields isDouble_0)
  have c: "serverContent audioMessage = Some (plainContent\<lparr>inlineData := Some ''AAAA''\<rparr>)"
    by (simp add: audioMessage_def)
  have p: "\<not> interrupted (plainContent\<lparr>inlineData := Some ''AAAA''\<rparr>)"
    "truthy (inlineData (plainContent\<lparr>inlineData := Some ''AAAA''\<rparr>))"
    by (simp_all add: plainContent_def)
  from playback_is_gap_free[OF u, of 0 liveSession "AudioContext 24000" audioMessage
      "plainContent\<lparr>inlineData := Some ''AAAA''\<rparr>" tone 5]
  show ?thesis using u dc n c p two_buffers_back_to_back liveSession_fields by simp
qed

subsection \<open>Transcript order\<close>

text \<open>
  The tutor's line arrives in a message that is also flagged interrupted: the early
  return of line 161 discards it, and the transcript holds the two user lines only.
\<close>

theorem transcript_drops_interrupted_line_counterexample:
  "transcriptRef (run [Message (userSays ''A'') DecodeRejected 1,
        Message (tutorSaysInterrupted ''B'') DecodeRejected 2,
        Message (userSays ''C'') DecodeRejected 3] liveSession)
      = ''User: A'' @ [CHR 0x0A] @ ''User: C'' @ [CHR 0x0A]
   \<and> transcriptRef (run [Message (userSays ''A'') DecodeRejected 1,
        Message (tutorSaysInterrupted ''B'') DecodeRejected 2,
        Message (userSays ''C'') DecodeRejected 3] liveSession)
      \<noteq> ''User: A'' @ [CHR 0x0A] @ ''Tutor: B'' @ [CHR 0x0A] @ ''User: C'' @ [CHR 0x0A]"
proof -
  have l: "list_all isMessage [Message (userSays ''A'') DecodeRejected 1,
        Message (tutorSaysInterrupted ''B'') DecodeRejected 2,
        Message (userSays ''C'') DecodeRejected 3]"
    by simp
  have "transcriptRef (run [Message (userSays ''A'') DecodeRejected 1,
        Message (tutorSaysInterrupted ''B'') DecodeRejected 2,
        Message (userSays ''C'') DecodeRejected 3] liveSession)
      = ''User: A'' @ [CHR 0x0A] @ ''User: C'' @ [CHR 0x0A]"
    using handleServerMessage_transcriptRef liveSession_fields(1)
    by (simp add: handleServerMessage_audioContextRef handleServerMessage_transcriptRef
        liveSession_fields says_lines transcriptLine_def del: transcriptLines.simps)
  then show ?thesis by simp
qed

text \<open>
  C5 (as amended). The transcript is one string. While the output audio context
  exists, every message not flagged interrupted appends to it, in arrival order and
  with nothing merged or moved, the line \<open>User: text\<close> and a newline for a non-empty
  input transcription, then the line \<open>Tutor: text\<close> and a newline for a non-empty
  output transcription; a message flagged interrupted appends nothing.
\<close>

theorem transcript_in_arrival_order:
  assumes "audioContextRef s = Some ctx" and "list_all isMessage es"
  shows "transcriptRef (run es s) = transcriptRef s @ concat (map transcriptLines es)"
  using assms
proof (induction es arbitrary: s)
  case Nil
  then show ?case by simp
next
  case (Cons e es)
  then obtain m d t where e: "e = Message m d t" by (cases e) simp_all
  have c: "audioContextRef (fire e s) = Some ctx"
    using Cons.prems(1) by (simp add: e handleServerMessage_audioContextRef)
  have "transcriptRef (run es (fire e s))
      = transcriptRef (fire e s) @ concat (map transcriptLines es)"
    using Cons.IH[OF c] Cons.prems(2) by simp
  then show ?case
    using handleServerMessage_transcriptRef[OF Cons.prems(1), of m d t] by (simp add: e)
qed

theorem transcript_in_arrival_order_witness:
  "audioContextRef liveSession \<noteq> None
   \<and> list_all isMessage [Message (userSays ''A'') DecodeRejected 1,
        Message (tutorSays ''B'') DecodeRejected 2, Message (userSays ''C'') DecodeRejected 3]
   \<and> transcriptRef (run [Message (userSays ''A'') DecodeRejected 1,
        Message (tutorSays ''B'') DecodeRejected 2, Message (userSays ''C'') DecodeRejected 3]
        liveSession)
      = ''User: A'' @ [CHR 0x0A] @ ''Tutor: B'' @ [CHR 0x0A] @ ''User: C'' @ [CHR 0x0A]"
proof -
  have l: "list_all isMessage [Message (userSays ''A'') DecodeRejected 1,
        Message (tutorSays ''B'') DecodeRejected 2, Message (userSays ''C'') DecodeRejected 3]"
    by simp
  from transcript_in_arrival_order[OF liveSession_fields(1) l]
  show ?thesis using l
    by (simp add: liveSession_fields says_lines transcriptLine_def del: transcriptLines.simps)
qed

subsection \<open>Mute\<close>

text \<open>
  C3. The \<open>onaudioprocess\<close> closure is created once, by the \<open>startAudioInput\<close> of
  the first render, and reads that render's \<open>isMuted\<close>, which is \<open>false\<close>
  (\<open>capture_closure_is_first_render\<close>). After the user has pressed mute the state
  \<open>isMuted\<close> is \<open>true\<close>, yet the next capture window is still encoded and
  sent. Toggling itself touches nothing but the flag (\<open>toggleMute_keeps_capture\<close>).
\<close>

theorem muted_capture_still_sends:
  "isMuted mutedSession
   \<and> emitted mutedSession (fire (CaptureWindow someWindow) mutedSession)
       = [SendRealtimeInput someWindow]"
  by (simp add: mutedSession_fields onaudioprocess_def firstRender_def emit_def emitted_def)

subsection \<open>Turn completion and the speaking flag\<close>

text \<open>
  C8. With one scheduled buffer still in the active set and the speaking flag set, a
  message that only carries \<open>modelTurn.turnComplete\<close> clears the flag in the same
  handler run: no timer is set and the active set is still non-empty. Every other
  event keeps the flag set while the set is non-empty
  (\<open>speakingWhileActive_fire\<close>), and the \<open>onended\<close> path clears it only from
  the 200 ms timer and only if the set is empty then
  (\<open>natural_completion_is_debounced\<close>).
\<close>

theorem turn_complete_silences_while_playing:
  "isAiSpeaking speakingSession \<and> Dlist.member (sourcesRef speakingSession) 0
   \<and> \<not> isAiSpeaking (handleServerMessage turnCompleteMessage DecodeRejected (41/8) speakingSession)
   \<and> Dlist.member
        (sourcesRef (handleServerMessage turnCompleteMessage DecodeRejected (41/8) speakingSession)) 0
   \<and> emitted speakingSession
        (handleServerMessage turnCompleteMessage DecodeRejected (41/8) speakingSession) = []"
proof -
  have c: "serverContent turnCompleteMessage = Some (plainContent\<lparr>turnComplete := True\<rparr>)"
    by (simp add: turnCompleteMessage_def)
  have i: "\<not> interrupted (plainContent\<lparr>turnComplete := True\<rparr>)"
    by (simp add: plainContent_def)
  have "handleServerMessage turnCompleteMessage DecodeRejected (41/8) speakingSession
      = noted (plainContent\<lparr>turnComplete := True\<rparr>) speakingSession"
    using handleServerMessage_normal[OF c speakingSession_fields(3) i]
    by (simp add: plainContent_def)
  then show ?thesis
    by (simp add: noted_simps speakingSession_fields Dlist.member_def emitted_def)
qed

subsection \<open>Encoding and decoding of samples\<close>




end
